theory Spec2Isabelle
  imports
    Complex_Main
    "HOL-Library.Char_ord"
    "HOL-Library.List_Lexorder"
begin

section \<open>Python values shared by the four Lambda functions\<close>

text \<open>
  The four handlers of the repository (producer, SQS consumer, RabbitMQ consumer,
  comparison) are embedded as HOL functions. An exception of the Python code is a value
  \<open>Inl e\<close> of a sum type; a \<^verbatim>\<open>try ... except Exception\<close> block is a case
  distinction on that value. Clock reads, random draws and the outcome of the S3 and
  queue calls are inputs of the model.

  A float is the rational number that the double denotes, and every operation on
  floats rounds its exact result to the nearest double (\<open>round_double\<close> below; \<open>round53\<close>
  for the percentile index \<^verbatim>\<open>int(len(xs) * 0.95)\<close>).
  Strings are compared as Python compares them, lexicographically by character code.
\<close>

datatype py_exn =
    KeyError string
  | IndexError
  | TypeError
  | ValueError
  | AttributeError
  | ZeroDivisionError
  | JSONDecodeError

definition try_bind :: "py_exn + 'a \<Rightarrow> ('a \<Rightarrow> py_exn + 'b) \<Rightarrow> py_exn + 'b" where
  "try_bind r f = (case r of Inl e \<Rightarrow> Inl e | Inr v \<Rightarrow> f v)"

text \<open>\<^verbatim>\<open>d.get(key, default)\<close> on a field that may be absent.\<close>

definition get_or :: "'a option \<Rightarrow> 'a \<Rightarrow> 'a" where
  "get_or v d = (case v of None \<Rightarrow> d | Some x \<Rightarrow> x)"

text \<open>\<^verbatim>\<open>xs[i]\<close> for a non-negative index: IndexError out of range.\<close>

definition py_index :: "'a list \<Rightarrow> nat \<Rightarrow> py_exn + 'a" where
  "py_index xs i = (if i < length xs then Inr (xs ! i) else Inl IndexError)"

text \<open>\<^verbatim>\<open>xs[:n]\<close>: a negative bound counts from the end of the list.\<close>

definition py_slice_to :: "'a list \<Rightarrow> int \<Rightarrow> 'a list" where
  "py_slice_to xs n =
     (if 0 \<le> n then take (nat n) xs else take (length xs - nat (- n)) xs)"

text \<open>\<^verbatim>\<open>min(xs)\<close> and \<^verbatim>\<open>max(xs)\<close>: ValueError on the empty list.\<close>

definition py_min :: "rat list \<Rightarrow> py_exn + rat" where
  "py_min xs = (case xs of [] \<Rightarrow> Inl ValueError | x # ys \<Rightarrow> Inr (foldl min x ys))"

definition py_max :: "rat list \<Rightarrow> py_exn + rat" where
  "py_max xs = (case xs of [] \<Rightarrow> Inl ValueError | x # ys \<Rightarrow> Inr (foldl max x ys))"

subsection \<open>Floats\<close>

text \<open>
  A Python float is modelled as the rational number that the double denotes. An
  arithmetic operation on floats is the exact operation followed by \<open>round_double\<close>,
  the rounding of IEEE-754 binary64 to the nearest double, ties to even: a number \<open>x\<close>
  with \<open>2^e \<le> |x| < 2^(e+1)\<close> is rounded to a multiple of \<open>2^(e-52)\<close>, and below
  \<open>2^-1022\<close> to a multiple of \<open>2^-1074\<close>. Infinities and NaN do not occur: no number
  of these programs comes near \<open>2^1024\<close>.

  \<open>bit_length\<close> is Python's \<^verbatim>\<open>int.bit_length\<close>; \<open>float_exponent x\<close> is the \<open>e\<close>
  above, computed from the integer part of \<open>|x|\<close> or of \<open>1 / |x|\<close>.
\<close>

fun bit_length :: "nat \<Rightarrow> nat" where
  "bit_length n = (if n = 0 then 0 else Suc (bit_length (n div 2)))"

declare bit_length.simps [simp del]

definition round_half_even :: "rat \<Rightarrow> int" where
  "round_half_even x =
     (let f = \<lfloor>x\<rfloor>; d = x - of_int f
      in if d < 1 / 2 then f
         else if 1 / 2 < d then f + 1
         else if even f then f else f + 1)"

definition float_exponent :: "rat \<Rightarrow> int" where
  "float_exponent x =
     (if 1 \<le> \<bar>x\<bar> then int (bit_length (nat \<lfloor>\<bar>x\<bar>\<rfloor>)) - 1
      else - int (bit_length (nat (\<lceil>1 / \<bar>x\<bar>\<rceil> - 1))))"

definition round_double :: "rat \<Rightarrow> rat" where
  "round_double x =
     (if x = 0 then 0
      else let u = power_int 2 (max (float_exponent x) (- 1022) - 52)
           in of_int (round_half_even (x / u)) * u)"

text \<open>
  \<^verbatim>\<open>a / b\<close> on two ints or floats: the correctly rounded quotient, ZeroDivisionError
  when the divisor is zero.
\<close>

definition py_div :: "rat \<Rightarrow> rat \<Rightarrow> py_exn + rat" where
  "py_div a b = (if b = 0 then Inl ZeroDivisionError else Inr (round_double (a / b)))"

text \<open>
  \<^verbatim>\<open>sum(xs)\<close> on floats: the additions from left to right, each one rounded (CPython
  before 3.12; later versions compensate the rounding errors of the partial sums).
\<close>

definition py_sum :: "rat list \<Rightarrow> rat" where
  "py_sum xs = foldl (\<lambda>acc x. round_double (acc + x)) 0 xs"

text \<open>
  \<^verbatim>\<open>round(x, ndigits)\<close> on a float: the exact value of \<open>x\<close> is rounded to the nearest
  multiple of \<open>10^-ndigits\<close>, ties to even, and the result is the double nearest to that
  decimal number.
\<close>

definition py_round :: "rat \<Rightarrow> nat \<Rightarrow> rat" where
  "py_round x ndigits = round_double (of_int (round_half_even (x * 10 ^ ndigits)) / 10 ^ ndigits)"

subsection \<open>The float product \<^verbatim>\<open>len(xs) * 0.95\<close>\<close>

text \<open>
  \<open>round53 n\<close> rounds a natural number to 53 significant bits, to nearest and ties to
  even, as the conversion of an integer to a double and the rounding of a double product
  do.

  The literals \<^verbatim>\<open>0.95\<close> and \<^verbatim>\<open>0.99\<close> denote the doubles
  \<open>4278419646001971 / 2^52\<close> and \<open>4458563631096791 / 2^52\<close>. The product of the length
  \<open>L\<close> with such a constant \<open>m / 2^52\<close> is the double \<open>round53 (round53 L * m) / 2^52\<close>,
  and \<^verbatim>\<open>int(...)\<close> truncates it.
\<close>

definition round53 :: "nat \<Rightarrow> nat" where
  "round53 n =
     (if bit_length n \<le> 53 then n
      else let s = bit_length n - 53;
               q = n div 2 ^ s;
               r = n mod 2 ^ s;
               q' = (if 2 ^ s < 2 * r then q + 1
                     else if 2 * r = 2 ^ s \<and> odd q then q + 1
                     else q)
           in q' * 2 ^ s)"

definition double_0_95 :: nat where
  "double_0_95 = 4278419646001971"

definition double_0_99 :: nat where
  "double_0_99 = 4458563631096791"

definition int_len_times :: "nat \<Rightarrow> nat \<Rightarrow> nat" where
  "int_len_times L m = round53 (round53 L * m) div 2 ^ 52"

section \<open>Comparison function (the aggregator)\<close>

text \<open>
  A metric is the JSON object stored by a consumer. The aggregator reads the fields with
  \<^verbatim>\<open>.get\<close>, so every field may be absent (\<open>None\<close>). The two numbers are floats, as the
  consumers write them.
\<close>

record metric =
  message_id :: "string option"
  queue_type :: "string option"
  timestamp_sent :: "string option"
  timestamp_received :: "string option"
  timestamp_processed :: "string option"
  latency_ms :: "rat option"
  processing_time_ms :: "rat option"
  status :: "string option"
  passenger_name :: "string option"
  current_address :: "string option"
  destination :: "string option"
  sqs_message_id :: "string option"
  receipt_handle :: "string option"
  delivery_tag :: "nat option"

text \<open>
  \<^verbatim>\<open>get_all_metrics_from_s3\<close>: the bucket listing is a list of keys, each with the
  result of reading and parsing the object (\<open>None\<close> when \<^verbatim>\<open>get_object\<close> or
  \<^verbatim>\<open>json.loads\<close> raises); the listing itself is \<open>None\<close> when the paginator raises.
\<close>

type_synonym s3_listing = "(string \<times> metric option) list option"

definition endswith :: "string \<Rightarrow> string \<Rightarrow> bool" where
  "endswith s suffix = (length suffix \<le> length s \<and> drop (length s - length suffix) s = suffix)"

fun read_objects :: "(string \<times> metric option) list \<Rightarrow> metric list \<Rightarrow> metric list" where
  "read_objects [] all_metrics = all_metrics"
| "read_objects ((key, obj) # rest) all_metrics =
     (if \<not> endswith key ''.json'' then read_objects rest all_metrics
      else case obj of
             None \<Rightarrow> read_objects rest all_metrics
           | Some m \<Rightarrow> read_objects rest (all_metrics @ [m]))"

definition get_all_metrics_from_s3 :: "s3_listing \<Rightarrow> metric list" where
  "get_all_metrics_from_s3 bucket =
     (case bucket of None \<Rightarrow> [] | Some objs \<Rightarrow> read_objects objs [])"

subsection \<open>\<^verbatim>\<open>calculate_statistics\<close>\<close>

record queue_stats =
  count :: nat
  latencies :: "rat list"
  processing_times :: "rat list"
  successful :: nat
  failed :: nat

definition default_stats :: queue_stats where
  "default_stats = \<lparr>count = 0, latencies = [], processing_times = [], successful = 0, failed = 0\<rparr>"

text \<open>
  \<^verbatim>\<open>stats_by_queue\<close> is a \<^verbatim>\<open>defaultdict\<close>: an association list in insertion order.
  \<open>dd_update d k f\<close> is \<^verbatim>\<open>stats = d[k]\<close> followed by the in-place update \<open>f\<close>; a missing
  key is first inserted with the default value.
\<close>

fun dd_update ::
  "(string \<times> queue_stats) list \<Rightarrow> string \<Rightarrow> (queue_stats \<Rightarrow> queue_stats) \<Rightarrow> (string \<times> queue_stats) list"
where
  "dd_update [] k f = [(k, f default_stats)]"
| "dd_update ((k', v) # kvs) k f =
     (if k' = k then (k', f v) # kvs else (k', v) # dd_update kvs k f)"

definition add_metric :: "metric \<Rightarrow> queue_stats \<Rightarrow> queue_stats" where
  "add_metric m stats =
     stats\<lparr>count := count stats + 1,
           latencies := latencies stats @ [get_or (latency_ms m) 0],
           processing_times := processing_times stats @ [get_or (processing_time_ms m) 0],
           successful := (if status m = Some ''successful'' then successful stats + 1 else successful stats),
           failed := (if status m = Some ''successful'' then failed stats else failed stats + 1)\<rparr>"

text \<open>\<^verbatim>\<open>queue_type = metric.get('queue_type', 'unknown')\<close>\<close>

definition metric_key :: "metric \<Rightarrow> string" where
  "metric_key m = get_or (queue_type m) ''unknown''"

fun group_metrics :: "metric list \<Rightarrow> (string \<times> queue_stats) list \<Rightarrow> (string \<times> queue_stats) list" where
  "group_metrics [] stats_by_queue = stats_by_queue"
| "group_metrics (m # ms) stats_by_queue =
     group_metrics ms (dd_update stats_by_queue (metric_key m) (add_metric m))"

record latency_summary =
  avg_ms :: rat
  min_ms :: rat
  max_ms :: rat
  median_ms :: rat
  p95_ms :: rat
  p99_ms :: rat

record processing_summary =
  pt_avg_ms :: rat
  pt_min_ms :: rat
  pt_max_ms :: rat

record stat_summary =
  s_count :: nat
  s_latency :: latency_summary
  s_processing_time :: processing_summary
  success_rate :: rat
  successful_count :: nat
  failed_count :: nat

definition percentile :: "rat list \<Rightarrow> nat \<Rightarrow> py_exn + rat" where
  "percentile xs m =
     (if 1 < length xs
      then try_bind (py_index xs (int_len_times (length xs) m)) (\<lambda>v. Inr (py_round v 2))
      else try_bind (py_index xs 0) (\<lambda>v. Inr (py_round v 2)))"

definition latency_stats :: "rat list \<Rightarrow> py_exn + latency_summary" where
  "latency_stats xs =
     try_bind (py_div (py_sum xs) (of_nat (length xs))) (\<lambda>avg.
     try_bind (py_min xs) (\<lambda>mn.
     try_bind (py_max xs) (\<lambda>mx.
     try_bind (py_index xs (length xs div 2)) (\<lambda>med.
     try_bind (percentile xs double_0_95) (\<lambda>p95.
     try_bind (percentile xs double_0_99) (\<lambda>p99.
       Inr \<lparr>avg_ms = py_round avg 2, min_ms = py_round mn 2, max_ms = py_round mx 2,
            median_ms = py_round med 2, p95_ms = p95, p99_ms = p99\<rparr>))))))"

definition processing_stats :: "rat list \<Rightarrow> py_exn + processing_summary" where
  "processing_stats xs =
     try_bind (py_div (py_sum xs) (of_nat (length xs))) (\<lambda>avg.
     try_bind (py_min xs) (\<lambda>mn.
     try_bind (py_max xs) (\<lambda>mx.
       Inr \<lparr>pt_avg_ms = py_round avg 2, pt_min_ms = py_round mn 2, pt_max_ms = py_round mx 2\<rparr>)))"

definition summarise :: "queue_stats \<Rightarrow> py_exn + stat_summary" where
  "summarise stats =
     try_bind (latency_stats (sort (latencies stats))) (\<lambda>lat.
     try_bind (processing_stats (sort (processing_times stats))) (\<lambda>pt.
     try_bind (py_div (of_nat (successful stats)) (of_nat (count stats))) (\<lambda>rate.
       Inr \<lparr>s_count = count stats, s_latency = lat, s_processing_time = pt,
            success_rate = py_round rate 4,
            successful_count = successful stats, failed_count = failed stats\<rparr>)))"

fun summarise_all ::
  "(string \<times> queue_stats) list \<Rightarrow> (string \<times> stat_summary) list \<Rightarrow> py_exn + (string \<times> stat_summary) list"
where
  "summarise_all [] summary = Inr summary"
| "summarise_all ((qt, stats) # rest) summary =
     (if count stats = 0 then summarise_all rest summary
      else try_bind (summarise stats) (\<lambda>s. summarise_all rest (summary @ [(qt, s)])))"

definition calculate_statistics :: "metric list \<Rightarrow> py_exn + (string \<times> stat_summary) list" where
  "calculate_statistics metrics = summarise_all (group_metrics metrics []) []"

subsection \<open>\<^verbatim>\<open>lambda_handler\<close> of the comparison function\<close>

text \<open>
  \<^verbatim>\<open>int(s)\<close> on a query-string value: surrounding white space is ignored, then an
  optional sign and decimal digits, where single underscores may separate digits.
\<close>

definition is_space :: "char \<Rightarrow> bool" where
  "is_space c = (c \<in> set [CHR '' '', CHR 0x09, CHR 0x0A, CHR 0x0B, CHR 0x0C, CHR 0x0D])"

definition strip :: "string \<Rightarrow> string" where
  "strip s = rev (dropWhile is_space (rev (dropWhile is_space s)))"

definition digit_val :: "char \<Rightarrow> nat option" where
  "digit_val c =
     (if CHR ''0'' \<le> c \<and> c \<le> CHR ''9'' then Some (of_char c - of_char CHR ''0'') else None)"

fun parse_digits :: "string \<Rightarrow> nat \<Rightarrow> nat option" where
  "parse_digits [] acc = None"
| "parse_digits (c # cs) acc =
     (case digit_val c of
        None \<Rightarrow> None
      | Some d \<Rightarrow>
          (case cs of
             [] \<Rightarrow> Some (10 * acc + d)
           | c' # cs' \<Rightarrow>
               if c' = CHR ''_'' then parse_digits cs' (10 * acc + d)
               else parse_digits cs (10 * acc + d)))"

definition py_int :: "string \<Rightarrow> py_exn + int" where
  "py_int s =
     (case strip s of
        [] \<Rightarrow> Inl ValueError
      | c # cs \<Rightarrow>
          if c = CHR ''-'' then
            (case parse_digits cs 0 of None \<Rightarrow> Inl ValueError | Some n \<Rightarrow> Inr (- int n))
          else if c = CHR ''+'' then
            (case parse_digits cs 0 of None \<Rightarrow> Inl ValueError | Some n \<Rightarrow> Inr (int n))
          else
            (case parse_digits (c # cs) 0 of None \<Rightarrow> Inl ValueError | Some n \<Rightarrow> Inr (int n)))"

text \<open>\<^verbatim>\<open>str.lower\<close> on ASCII letters.\<close>

definition lower_char :: "char \<Rightarrow> char" where
  "lower_char c =
     (case map_of (zip ''ABCDEFGHIJKLMNOPQRSTUVWXYZ'' ''abcdefghijklmnopqrstuvwxyz'') c of
        None \<Rightarrow> c
      | Some l \<Rightarrow> l)"

definition lower :: "string \<Rightarrow> string" where
  "lower s = map lower_char s"

text \<open>
  The event of the comparison function: \<open>queryStringParameters\<close> is \<open>None\<close> when the key
  is absent or null (\<^verbatim>\<open>event.get('queryStringParameters') or {}\<close>).
\<close>

record comparison_event =
  queryStringParameters :: "(string \<times> string) list option"

text \<open>
  The JSON body of the response; \<open>None\<close> is a key that the body does not have.
\<close>

record comparison_body =
  b_message :: "string option"
  b_total_messages :: "nat option"
  b_statistics :: "(string \<times> stat_summary) list option"
  b_timestamp :: "string option"
  b_messages :: "metric list option"
  b_error :: "string option"
  b_details :: "py_exn option"

record comparison_response =
  statusCode :: nat
  headers :: "(string \<times> string) list"
  body :: comparison_body

definition json_headers :: "(string \<times> string) list" where
  "json_headers = [(''Content-Type'', ''application/json''), (''Access-Control-Allow-Origin'', ''*'')]"

definition empty_body :: comparison_body where
  "empty_body = \<lparr>b_message = None, b_total_messages = None, b_statistics = None,
                  b_timestamp = None, b_messages = None, b_error = None, b_details = None\<rparr>"

text \<open>\<^verbatim>\<open>sorted(all_metrics, key=..., reverse=True)\<close>: stable, equal keys keep their order.\<close>

definition sorted_newest_first :: "metric list \<Rightarrow> metric list" where
  "sorted_newest_first all_metrics =
     rev (sort_key (\<lambda>x. get_or (timestamp_received x) []) (rev all_metrics))"

definition parse_limit :: "(string \<times> string) list \<Rightarrow> py_exn + int" where
  "parse_limit query_params =
     (case map_of query_params ''limit'' of None \<Rightarrow> Inr 100 | Some s \<Rightarrow> py_int s)"

definition internal_error :: "py_exn \<Rightarrow> comparison_response" where
  "internal_error e =
     \<lparr>statusCode = 500, headers = json_headers,
      body = empty_body\<lparr>b_error := Some ''Internal server error'', b_details := Some e\<rparr>\<rparr>"

text \<open>
  The body of the \<^verbatim>\<open>try\<close> block, for the metrics already fetched and the clock
  reading \<open>now\<close> of \<^verbatim>\<open>datetime.utcnow().isoformat() + 'Z'\<close>.
\<close>

definition comparison_try :: "comparison_event \<Rightarrow> metric list \<Rightarrow> string \<Rightarrow> py_exn + comparison_response" where
  "comparison_try event all_metrics now =
     (if all_metrics = [] then
        Inr \<lparr>statusCode = 200, headers = json_headers,
             body = empty_body\<lparr>b_message := Some ''No metrics found'', b_total_messages := Some 0,
                               b_statistics := Some [], b_messages := Some []\<rparr>\<rparr>
      else
        try_bind (calculate_statistics all_metrics) (\<lambda>statistics.
          let sorted_metrics = sorted_newest_first all_metrics;
              query_params = get_or (queryStringParameters event) [];
              include_details = (lower (get_or (map_of query_params ''details'') ''false'') = ''true'')
          in try_bind (parse_limit query_params) (\<lambda>limit.
               let response_data = empty_body\<lparr>b_total_messages := Some (length all_metrics),
                                              b_statistics := Some statistics,
                                              b_timestamp := Some now\<rparr>;
                   response_data' =
                     (if include_details
                      then response_data\<lparr>b_messages := Some (py_slice_to sorted_metrics limit)\<rparr>
                      else response_data\<lparr>b_message := Some ''Add ?details=true to see individual messages''\<rparr>)
               in Inr \<lparr>statusCode = 200, headers = json_headers, body = response_data'\<rparr>)))"

definition comparison_handler :: "comparison_event \<Rightarrow> s3_listing \<Rightarrow> string \<Rightarrow> comparison_response" where
  "comparison_handler event bucket now =
     (case comparison_try event (get_all_metrics_from_s3 bucket) now of
        Inl e \<Rightarrow> internal_error e
      | Inr response \<Rightarrow> response)"

section \<open>Timestamps\<close>

text \<open>
  A \<^verbatim>\<open>datetime\<close>: the calendar fields and the offset from UTC in microseconds
  (\<open>None\<close> for a naive value, as \<^verbatim>\<open>datetime.utcnow()\<close> returns).
\<close>

record pydatetime =
  dt_year :: nat
  dt_month :: nat
  dt_day :: nat
  dt_hour :: nat
  dt_minute :: nat
  dt_second :: nat
  dt_microsecond :: nat
  dt_utcoffset :: "int option"

definition is_leap :: "nat \<Rightarrow> bool" where
  "is_leap y = (if y mod 400 = 0 then True else if y mod 100 = 0 then False else y mod 4 = 0)"

definition days_in_month :: "nat \<Rightarrow> nat \<Rightarrow> nat" where
  "days_in_month y m =
     (if m = 2 \<and> is_leap y then 29
      else [31, 28, 31, 30, 31, 30, 31, 31, 30, 31, 30, 31] ! (m - 1))"

definition days_before_year :: "nat \<Rightarrow> nat" where
  "days_before_year y = (y - 1) * 365 + (y - 1) div 4 - (y - 1) div 100 + (y - 1) div 400"

definition days_before_month :: "nat \<Rightarrow> nat \<Rightarrow> nat" where
  "days_before_month y m =
     [0, 31, 59, 90, 120, 151, 181, 212, 243, 273, 304, 334] ! (m - 1)
       + (if 2 < m \<and> is_leap y then 1 else 0)"

definition ymd2ord :: "nat \<Rightarrow> nat \<Rightarrow> nat \<Rightarrow> nat" where
  "ymd2ord y m d = days_before_year y + days_before_month y m + d"

text \<open>The checks of the \<^verbatim>\<open>datetime\<close> constructor on the calendar fields.\<close>

definition valid_fields :: "pydatetime \<Rightarrow> bool" where
  "valid_fields d =
     (1 \<le> dt_year d \<and> dt_year d \<le> 9999 \<and> 1 \<le> dt_month d \<and> dt_month d \<le> 12
      \<and> 1 \<le> dt_day d \<and> dt_day d \<le> days_in_month (dt_year d) (dt_month d)
      \<and> dt_hour d < 24 \<and> dt_minute d < 60 \<and> dt_second d < 60 \<and> dt_microsecond d < 1000000)"

text \<open>Microseconds from the start of year 1 to the wall-clock reading of \<open>d\<close>.\<close>

definition wall_us :: "pydatetime \<Rightarrow> int" where
  "wall_us d =
     int ((((ymd2ord (dt_year d) (dt_month d) (dt_day d) * 24 + dt_hour d) * 60 + dt_minute d) * 60
            + dt_second d) * 1000000 + dt_microsecond d)"

text \<open>
  \<^verbatim>\<open>a - b\<close> on two datetimes, in microseconds: TypeError when exactly one of them is
  naive.
\<close>

definition dt_sub :: "pydatetime \<Rightarrow> pydatetime \<Rightarrow> py_exn + int" where
  "dt_sub a b =
     (case (dt_utcoffset a, dt_utcoffset b) of
        (None, None) \<Rightarrow> Inr (wall_us a - wall_us b)
      | (Some oa, Some ob) \<Rightarrow> Inr ((wall_us a - oa) - (wall_us b - ob))
      | _ \<Rightarrow> Inl TypeError)"

subsection \<open>\<^verbatim>\<open>datetime.isoformat\<close>\<close>

definition digit_char :: "nat \<Rightarrow> char" where
  "digit_char d = ''0123456789'' ! d"

definition pad2 :: "nat \<Rightarrow> string" where
  "pad2 n = [digit_char (n div 10 mod 10), digit_char (n mod 10)]"

definition pad4 :: "nat \<Rightarrow> string" where
  "pad4 n = [digit_char (n div 1000 mod 10), digit_char (n div 100 mod 10),
             digit_char (n div 10 mod 10), digit_char (n mod 10)]"

definition pad6 :: "nat \<Rightarrow> string" where
  "pad6 n = [digit_char (n div 100000 mod 10), digit_char (n div 10000 mod 10),
             digit_char (n div 1000 mod 10), digit_char (n div 100 mod 10),
             digit_char (n div 10 mod 10), digit_char (n mod 10)]"

text \<open>
  \<^verbatim>\<open>d.isoformat()\<close> for a naive datetime: the fraction is printed only when the
  microsecond is not zero.
\<close>

definition isoformat :: "pydatetime \<Rightarrow> string" where
  "isoformat d =
     pad4 (dt_year d) @ ''-'' @ pad2 (dt_month d) @ ''-'' @ pad2 (dt_day d) @ ''T''
       @ pad2 (dt_hour d) @ '':'' @ pad2 (dt_minute d) @ '':'' @ pad2 (dt_second d)
       @ (if dt_microsecond d = 0 then [] else ''.'' @ pad6 (dt_microsecond d))"

text \<open>\<^verbatim>\<open>datetime.utcnow().isoformat() + 'Z'\<close> for the clock reading \<open>d\<close>.\<close>

definition utc_stamp :: "pydatetime \<Rightarrow> string" where
  "utc_stamp d = isoformat d @ ''Z''"

subsection \<open>\<^verbatim>\<open>datetime.fromisoformat\<close>\<close>

text \<open>
  The grammar of \<^verbatim>\<open>datetime.fromisoformat\<close> of Python 3.7 to 3.10:
  \<^verbatim>\<open>YYYY-MM-DD[*HH[:MM[:SS[.fff[fff]]]][+HH:MM[:SS[.ffffff]]]]\<close>, with ASCII digits
  only. A string outside this grammar raises ValueError.
\<close>

fun nat_of_digits :: "string \<Rightarrow> nat \<Rightarrow> nat option" where
  "nat_of_digits [] acc = Some acc"
| "nat_of_digits (c # cs) acc =
     (case digit_val c of None \<Rightarrow> None | Some d \<Rightarrow> nat_of_digits cs (10 * acc + d))"

text \<open>\<^verbatim>\<open>int(s[pos:pos+n])\<close> on exactly \<open>n\<close> digits.\<close>

definition int_field :: "string \<Rightarrow> nat \<Rightarrow> nat \<Rightarrow> py_exn + nat" where
  "int_field s pos n =
     (let f = take n (drop pos s)
      in if length f \<noteq> n then Inl ValueError
         else case nat_of_digits f 0 of None \<Rightarrow> Inl ValueError | Some v \<Rightarrow> Inr v)"

definition parse_isoformat_date :: "string \<Rightarrow> py_exn + (nat \<times> nat \<times> nat)" where
  "parse_isoformat_date dtstr =
     try_bind (int_field dtstr 0 4) (\<lambda>year.
       if take 1 (drop 4 dtstr) \<noteq> ''-'' then Inl ValueError
       else try_bind (int_field dtstr 5 2) (\<lambda>month.
         if take 1 (drop 7 dtstr) \<noteq> ''-'' then Inl ValueError
         else try_bind (int_field dtstr 8 2) (\<lambda>day. Inr (year, month, day))))"

definition parse_fraction :: "string \<Rightarrow> py_exn + nat" where
  "parse_fraction f =
     (if length f = 3 then try_bind (int_field f 0 3) (\<lambda>ms. Inr (ms * 1000))
      else if length f = 6 then int_field f 0 6
      else Inl ValueError)"

definition parse_hh_mm_ss_ff :: "string \<Rightarrow> py_exn + (nat \<times> nat \<times> nat \<times> nat)" where
  "parse_hh_mm_ss_ff tstr =
     try_bind (int_field tstr 0 2) (\<lambda>hh.
       if drop 2 tstr = [] then Inr (hh, 0, 0, 0)
       else if take 1 (drop 2 tstr) \<noteq> '':'' then Inl ValueError
       else try_bind (int_field tstr 3 2) (\<lambda>mm.
         if drop 5 tstr = [] then Inr (hh, mm, 0, 0)
         else if take 1 (drop 5 tstr) \<noteq> '':'' then Inl ValueError
         else try_bind (int_field tstr 6 2) (\<lambda>ss.
           if drop 8 tstr = [] then Inr (hh, mm, ss, 0)
           else if take 1 (drop 8 tstr) \<noteq> ''.'' then Inl ValueError
           else try_bind (parse_fraction (drop 9 tstr)) (\<lambda>ff. Inr (hh, mm, ss, ff)))))"

text \<open>\<^verbatim>\<open>s.find(c)\<close>: the first position of a character.\<close>

fun find_char :: "char \<Rightarrow> string \<Rightarrow> nat option" where
  "find_char c [] = None"
| "find_char c (x # xs) =
     (if x = c then Some 0 else case find_char c xs of None \<Rightarrow> None | Some i \<Rightarrow> Some (Suc i))"

text \<open>
  The offset of a zone string in microseconds; \<^verbatim>\<open>timezone(td)\<close> raises ValueError
  unless the offset is strictly between minus and plus one day.
\<close>

definition parse_tz :: "char \<Rightarrow> string \<Rightarrow> py_exn + int" where
  "parse_tz sign tzstr =
     (if length tzstr \<notin> {5, 8, 15} then Inl ValueError
      else try_bind (parse_hh_mm_ss_ff tzstr) (\<lambda>(hh, mm, ss, ff).
        let td = int (((hh * 60 + mm) * 60 + ss) * 1000000 + ff)
        in if 86400000000 \<le> td then Inl ValueError
           else Inr (if sign = CHR ''-'' then - td else td)))"

definition parse_isoformat_time ::
  "string \<Rightarrow> py_exn + ((nat \<times> nat \<times> nat \<times> nat) \<times> int option)" where
  "parse_isoformat_time tstr =
     (if length tstr < 2 then Inl ValueError
      else case (case find_char CHR ''-'' tstr of
                   None \<Rightarrow> find_char CHR ''+'' tstr
                 | Some i \<Rightarrow> Some i) of
             None \<Rightarrow> try_bind (parse_hh_mm_ss_ff tstr) (\<lambda>comps. Inr (comps, None))
           | Some i \<Rightarrow>
               try_bind (parse_hh_mm_ss_ff (take i tstr)) (\<lambda>comps.
               try_bind (parse_tz (tstr ! i) (drop (Suc i) tstr)) (\<lambda>off. Inr (comps, Some off))))"

definition fromisoformat :: "string \<Rightarrow> py_exn + pydatetime" where
  "fromisoformat date_string =
     try_bind (parse_isoformat_date (take 10 date_string)) (\<lambda>(year, month, day).
     try_bind (if drop 11 date_string = [] then Inr ((0, 0, 0, 0), None)
               else parse_isoformat_time (drop 11 date_string)) (\<lambda>((hh, mm, ss, ff), tz).
       let d = \<lparr>dt_year = year, dt_month = month, dt_day = day, dt_hour = hh, dt_minute = mm,
                dt_second = ss, dt_microsecond = ff, dt_utcoffset = tz\<rparr>
       in if valid_fields d then Inr d else Inl ValueError))"

text \<open>\<^verbatim>\<open>s.replace('Z', '+00:00')\<close>: every occurrence is replaced.\<close>

definition replace_Z :: "string \<Rightarrow> string" where
  "replace_Z s = concat (map (\<lambda>c. if c = CHR ''Z'' then ''+00:00'' else [c]) s)"

subsection \<open>\<^verbatim>\<open>calculate_latency\<close> (the same function in both consumers)\<close>

text \<open>
  A timestamp argument is \<open>None\<close> when the message has no \<open>timestamp_sent\<close>; then
  \<^verbatim>\<open>.replace\<close> raises AttributeError. The difference of two datetimes is a timedelta,
  here its number of microseconds; \<^verbatim>\<open>total_seconds()\<close> is the float quotient of the
  microseconds by \<open>10^6\<close>, and the product with 1000 is rounded again.
\<close>

definition parse_timestamp :: "string option \<Rightarrow> py_exn + pydatetime" where
  "parse_timestamp ts =
     (case ts of None \<Rightarrow> Inl AttributeError | Some s \<Rightarrow> fromisoformat (replace_Z s))"

definition total_seconds :: "int \<Rightarrow> rat" where
  "total_seconds us = round_double (of_int us / 1000000)"

definition latency_try :: "string option \<Rightarrow> string option \<Rightarrow> py_exn + rat" where
  "latency_try t_sent t_received =
     try_bind (parse_timestamp t_sent) (\<lambda>sent.
     try_bind (parse_timestamp t_received) (\<lambda>received.
     try_bind (dt_sub received sent) (\<lambda>delta.
       Inr (round_double (total_seconds delta * 1000)))))"

definition calculate_latency :: "string option \<Rightarrow> string option \<Rightarrow> rat" where
  "calculate_latency t_sent t_received =
     (case latency_try t_sent t_received of Inl e \<Rightarrow> 0 | Inr ms \<Rightarrow> ms)"

section \<open>The consumers\<close>

text \<open>
  The body of a queue message after \<^verbatim>\<open>json.loads\<close>: the text is not JSON
  (JSONDecodeError), it is JSON but not an object (\<^verbatim>\<open>.get\<close> raises AttributeError), or
  it is an object whose fields are read with \<^verbatim>\<open>.get\<close>.
\<close>

record message_body =
  mb_message_id :: "string option"
  mb_timestamp_sent :: "string option"
  mb_passenger_name :: "string option"
  mb_current_address :: "string option"
  mb_destination :: "string option"

datatype json_text = Malformed | Not_object | Object message_body

text \<open>
  What one iteration of a consumer loop reads from outside: the two clock readings of
  \<^verbatim>\<open>datetime.utcnow()\<close>, the two random draws of \<^verbatim>\<open>simulate_processing\<close> and whether
  \<^verbatim>\<open>put_object\<close> succeeds. A consumer takes these as a function of the iteration number.
\<close>

record iteration_env =
  now_received :: pydatetime
  now_processed :: pydatetime
  uniform_draw :: rat
  random_draw :: rat
  put_object_ok :: bool

definition simulate_processing :: "iteration_env \<Rightarrow> bool \<times> rat" where
  "simulate_processing env =
     (let processing_time = uniform_draw env;
          success = (round_double (2 / 100) < random_draw env)
      in (success, round_double (processing_time * 1000)))"

text \<open>
  \<^verbatim>\<open>store_metrics_to_s3\<close> returns \<^verbatim>\<open>True\<close> when \<^verbatim>\<open>put_object\<close> succeeds and
  \<^verbatim>\<open>False\<close> when anything raises.
\<close>

definition store_metrics_to_s3 :: "iteration_env \<Rightarrow> metric \<Rightarrow> bool" where
  "store_metrics_to_s3 env metrics = put_object_ok env"

subsection \<open>SQS consumer (push mode)\<close>

record sqs_record =
  body_field :: "json_text option"
  messageId :: "string option"
  receiptHandle :: "string option"

text \<open>
  The statements of the \<^verbatim>\<open>try\<close> block up to the metrics object; \<open>Inl\<close> is the exception
  that the block raises (\<^verbatim>\<open>record['body']\<close> on a record without body is a KeyError).
\<close>

definition sqs_metrics :: "sqs_record \<Rightarrow> iteration_env \<Rightarrow> py_exn + metric" where
  "sqs_metrics record env =
     (case body_field record of
        None \<Rightarrow> Inl (KeyError ''body'')
      | Some Malformed \<Rightarrow> Inl JSONDecodeError
      | Some Not_object \<Rightarrow> Inl AttributeError
      | Some (Object message_body) \<Rightarrow>
          let t_sent = mb_timestamp_sent message_body;
              t_received = utc_stamp (now_received env);
              latency = calculate_latency t_sent (Some t_received);
              (success, processing_time) = simulate_processing env
          in Inr \<lparr>message_id = Some (get_or (mb_message_id message_body) ''unknown''),
                  queue_type = Some ''sqs'',
                  timestamp_sent = t_sent,
                  timestamp_received = Some t_received,
                  timestamp_processed = Some (utc_stamp (now_processed env)),
                  latency_ms = Some (py_round latency 2),
                  processing_time_ms = Some (py_round processing_time 2),
                  status = Some (if success then ''successful'' else ''failed''),
                  passenger_name = Some (get_or (mb_passenger_name message_body) ''N/A''),
                  current_address = Some (get_or (mb_current_address message_body) ''N/A''),
                  destination = Some (get_or (mb_destination message_body) ''N/A''),
                  sqs_message_id = messageId record,
                  receipt_handle = receiptHandle record,
                  delivery_tag = None\<rparr>)"

record push_state =
  ps_processed_count :: nat
  ps_failed_count :: nat
  put_objects :: "metric list"

text \<open>One iteration of the loop over \<^verbatim>\<open>event['Records']\<close>.\<close>

definition process_record :: "sqs_record \<Rightarrow> iteration_env \<Rightarrow> push_state \<Rightarrow> push_state" where
  "process_record record env st =
     (case sqs_metrics record env of
        Inl e \<Rightarrow> st\<lparr>ps_failed_count := ps_failed_count st + 1\<rparr>
      | Inr metrics \<Rightarrow>
          if store_metrics_to_s3 env metrics
          then st\<lparr>ps_processed_count := ps_processed_count st + 1,
                  put_objects := put_objects st @ [metrics]\<rparr>
          else st\<lparr>ps_failed_count := ps_failed_count st + 1\<rparr>)"

fun process_records ::
  "(nat \<Rightarrow> iteration_env) \<Rightarrow> nat \<Rightarrow> sqs_record list \<Rightarrow> push_state \<Rightarrow> push_state" where
  "process_records world i [] st = st"
| "process_records world i (record # records) st =
     process_records world (Suc i) records (process_record record (world i) st)"

text \<open>
  The \<open>Records\<close> entry of the event: absent (\<^verbatim>\<open>event.get('Records', [])\<close> is the empty
  list), present but not iterable (the \<^verbatim>\<open>for\<close> statement raises TypeError outside any
  \<^verbatim>\<open>try\<close>), or a list of records.
\<close>

datatype records_field = Absent | Not_iterable | Record_list "sqs_record list"

record push_result =
  r_statusCode :: nat
  r_processed :: nat
  r_failed :: nat
  r_total :: nat

definition sqs_lambda_handler ::
  "records_field \<Rightarrow> (nat \<Rightarrow> iteration_env) \<Rightarrow> py_exn + (push_result \<times> metric list)" where
  "sqs_lambda_handler records world =
     (case records of
        Not_iterable \<Rightarrow> Inl TypeError
      | Absent \<Rightarrow>
          Inr (\<lparr>r_statusCode = 200, r_processed = 0, r_failed = 0, r_total = 0\<rparr>, [])
      | Record_list rs \<Rightarrow>
          let st = process_records world 0 rs \<lparr>ps_processed_count = 0, ps_failed_count = 0, put_objects = []\<rparr>
          in Inr (\<lparr>r_statusCode = 200, r_processed = ps_processed_count st,
                    r_failed = ps_failed_count st, r_total = length rs\<rparr>, put_objects st))"

subsection \<open>RabbitMQ consumer (pull mode)\<close>

record delivery =
  d_delivery_tag :: nat
  d_body :: json_text

definition rabbitmq_metrics :: "delivery \<Rightarrow> iteration_env \<Rightarrow> py_exn + metric" where
  "rabbitmq_metrics frame env =
     (case d_body frame of
        Malformed \<Rightarrow> Inl JSONDecodeError
      | Not_object \<Rightarrow> Inl AttributeError
      | Object message_body \<Rightarrow>
          let t_sent = mb_timestamp_sent message_body;
              t_received = utc_stamp (now_received env);
              latency = calculate_latency t_sent (Some t_received);
              (success, processing_time) = simulate_processing env
          in Inr \<lparr>message_id = Some (get_or (mb_message_id message_body) ''unknown''),
                  queue_type = Some ''rabbitmq'',
                  timestamp_sent = t_sent,
                  timestamp_received = Some t_received,
                  timestamp_processed = Some (utc_stamp (now_processed env)),
                  latency_ms = Some (py_round latency 2),
                  processing_time_ms = Some (py_round processing_time 2),
                  status = Some (if success then ''successful'' else ''failed''),
                  passenger_name = Some (get_or (mb_passenger_name message_body) ''N/A''),
                  current_address = Some (get_or (mb_current_address message_body) ''N/A''),
                  destination = Some (get_or (mb_destination message_body) ''N/A''),
                  sqs_message_id = None,
                  receipt_handle = None,
                  delivery_tag = Some (d_delivery_tag frame)\<rparr>)"

text \<open>
  The calls on the channel, in order: \<^verbatim>\<open>basic_ack(delivery_tag)\<close> and
  \<^verbatim>\<open>basic_nack(delivery_tag, requeue)\<close>.
\<close>

datatype channel_op = Basic_ack nat | Basic_nack nat bool

record pull_state =
  channel_log :: "channel_op list"
  processed_messages :: "metric list"
  messages_consumed :: nat
  stored_objects :: "metric list"

text \<open>
  The loop over \<^verbatim>\<open>channel.consume(...)\<close>. The generator yields a delivery, or \<open>None\<close> after
  the inactivity timeout. An exception inside the \<^verbatim>\<open>try\<close> block is answered with a
  negative acknowledgement and the loop goes on, without counting the message.
\<close>

fun consume_loop ::
  "int \<Rightarrow> (nat \<Rightarrow> iteration_env) \<Rightarrow> nat \<Rightarrow> delivery option list \<Rightarrow> pull_state \<Rightarrow> pull_state" where
  "consume_loop max_messages world i [] st = st"
| "consume_loop max_messages world i (None # frames) st = st"
| "consume_loop max_messages world i (Some frame # frames) st =
     (case rabbitmq_metrics frame (world i) of
        Inl e \<Rightarrow>
          consume_loop max_messages world (Suc i) frames
            (st\<lparr>channel_log := channel_log st @ [Basic_nack (d_delivery_tag frame) True]\<rparr>)
      | Inr metrics \<Rightarrow>
          let st1 =
                (if store_metrics_to_s3 (world i) metrics
                 then st\<lparr>channel_log := channel_log st @ [Basic_ack (d_delivery_tag frame)],
                         processed_messages := processed_messages st @ [metrics],
                         stored_objects := stored_objects st @ [metrics]\<rparr>
                 else st\<lparr>channel_log := channel_log st @ [Basic_nack (d_delivery_tag frame) True]\<rparr>);
              st2 = st1\<lparr>messages_consumed := messages_consumed st1 + 1\<rparr>
          in if max_messages \<le> int (messages_consumed st2) then st2
             else consume_loop max_messages world (Suc i) frames st2)"

definition initial_pull_state :: pull_state where
  "initial_pull_state =
     \<lparr>channel_log = [], processed_messages = [], messages_consumed = 0, stored_objects = []\<rparr>"

text \<open>
  \<^verbatim>\<open>consume_messages_from_rabbitmq\<close>: when the connection cannot be opened the outer
  \<^verbatim>\<open>except\<close> returns the empty list.
\<close>

definition consume_messages_from_rabbitmq ::
  "bool \<Rightarrow> int \<Rightarrow> (nat \<Rightarrow> iteration_env) \<Rightarrow> delivery option list \<Rightarrow> pull_state" where
  "consume_messages_from_rabbitmq connection_ok max_messages world frames =
     (if connection_ok then consume_loop max_messages world 0 frames initial_pull_state
      else initial_pull_state)"

section \<open>The producer\<close>

text \<open>A JSON value, and its truth value in a Python condition.\<close>

datatype jval =
    JNull
  | JBool bool
  | JNum rat
  | JStr string
  | JList "jval list"
  | JDict "(string \<times> jval) list"

fun truthy :: "jval \<Rightarrow> bool" where
  "truthy JNull = False"
| "truthy (JBool b) = b"
| "truthy (JNum n) = (n \<noteq> 0)"
| "truthy (JStr s) = (s \<noteq> [])"
| "truthy (JList xs) = (xs \<noteq> [])"
| "truthy (JDict kvs) = (kvs \<noteq> [])"

text \<open>
  \<^verbatim>\<open>validate_request_body\<close> on a JSON object, given as the list of its members with
  distinct keys. The loop returns at the first required field that is absent or falsy.
\<close>

definition required_fields :: "string list" where
  "required_fields = [''passenger_name'', ''current_address'', ''destination'']"

fun check_fields :: "(string \<times> jval) list \<Rightarrow> string list \<Rightarrow> bool \<times> string option" where
  "check_fields body' [] = (True, None)"
| "check_fields body' (field # rest) =
     (case map_of body' field of
        None \<Rightarrow> (False, Some (''Missing required field: '' @ field))
      | Some v \<Rightarrow>
          if \<not> truthy v then (False, Some (''Missing required field: '' @ field))
          else check_fields body' rest)"

definition validate_request_body :: "(string \<times> jval) list \<Rightarrow> bool \<times> string option" where
  "validate_request_body body' =
     (if body' = [] then (False, Some ''Request body is empty'')
      else check_fields body' required_fields)"

text \<open>
  The \<open>body\<close> entry of the event: absent (the default \<^verbatim>\<open>'{}'\<close> is parsed), null
  (\<^verbatim>\<open>json.loads(None)\<close> raises TypeError), text that is not JSON, or the text of a JSON
  object.
\<close>

datatype request_body = Body_absent | Body_null | Body_not_json | Body_object "(string \<times> jval) list"

record producer_event =
  pe_queryStringParameters :: "(string \<times> string) list option"
  pe_body :: request_body

text \<open>
  What the handler reads from outside: the fresh \<^verbatim>\<open>uuid4\<close>, the clock, and the result
  of the send function (\<open>None\<close> for success, or the text of the error).
\<close>

record producer_env =
  new_uuid :: string
  now_sent :: pydatetime
  send_error :: "string option"

record queue_message =
  qm_message_id :: string
  qm_timestamp_sent :: string
  qm_queue_type :: string
  qm_passenger_name :: jval
  qm_current_address :: jval
  qm_destination :: jval
  qm_phone :: jval

record producer_body =
  pb_error :: "string option"
  pb_details :: "py_exn option"
  pb_message_id :: "string option"
  pb_timestamp :: "string option"
  pb_queue_type :: "string option"
  pb_status :: "string option"
  pb_passenger_name :: "jval option"

record producer_response =
  p_statusCode :: nat
  p_headers :: "(string \<times> string) list"
  p_body :: producer_body

definition no_body :: producer_body where
  "no_body = \<lparr>pb_error = None, pb_details = None, pb_message_id = None, pb_timestamp = None,
              pb_queue_type = None, pb_status = None, pb_passenger_name = None\<rparr>"

definition error_response :: "nat \<Rightarrow> string \<Rightarrow> producer_response" where
  "error_response code msg =
     \<lparr>p_statusCode = code, p_headers = json_headers, p_body = no_body\<lparr>pb_error := Some msg\<rparr>\<rparr>"

text \<open>\<^verbatim>\<open>body[field]\<close> on the object: KeyError when the key is absent.\<close>

definition subscript :: "(string \<times> jval) list \<Rightarrow> string \<Rightarrow> py_exn + jval" where
  "subscript body' field = (case map_of body' field of None \<Rightarrow> Inl (KeyError field) | Some v \<Rightarrow> Inr v)"

text \<open>
  \<^verbatim>\<open>queue_params.get('queue', 'sqs').lower() if queue_params else 'sqs'\<close>: the
  parameters are \<open>None\<close> when the event has none.
\<close>

definition queue_selector :: "producer_event \<Rightarrow> string" where
  "queue_selector event =
     (case pe_queryStringParameters event of
        None \<Rightarrow> ''sqs''
      | Some queue_params \<Rightarrow>
          if queue_params = [] then ''sqs''
          else lower (get_or (map_of queue_params ''queue'') ''sqs''))"

text \<open>
  The \<^verbatim>\<open>try\<close> block of the handler. The result is the response and the list of the
  messages handed to a send function, each with the queue it was sent to.
\<close>

definition producer_try ::
  "producer_event \<Rightarrow> producer_env \<Rightarrow> py_exn + (producer_response \<times> (string \<times> queue_message) list)" where
  "producer_try event env =
     (let q_type = queue_selector event
      in if q_type \<notin> set [''sqs'', ''rabbitmq'']
         then Inr (error_response 400 ''Invalid queue parameter. Use \"sqs\" or \"rabbitmq\"'', [])
         else
           try_bind (case pe_body event of
                       Body_absent \<Rightarrow> Inr []
                     | Body_null \<Rightarrow> Inl TypeError
                     | Body_not_json \<Rightarrow> Inl JSONDecodeError
                     | Body_object kvs \<Rightarrow> Inr kvs) (\<lambda>body'.
             case validate_request_body body' of
               (False, error_message) \<Rightarrow> Inr (error_response 400 (get_or error_message []), [])
             | (True, error_message) \<Rightarrow>
                 try_bind (subscript body' ''passenger_name'') (\<lambda>p_name.
                 try_bind (subscript body' ''current_address'') (\<lambda>address.
                 try_bind (subscript body' ''destination'') (\<lambda>dest.
                   let message =
                         \<lparr>qm_message_id = new_uuid env,
                          qm_timestamp_sent = utc_stamp (now_sent env),
                          qm_queue_type = q_type,
                          qm_passenger_name = p_name,
                          qm_current_address = address,
                          qm_destination = dest,
                          qm_phone = get_or (map_of body' ''phone'') (JStr ''N/A'')\<rparr>
                   in case send_error env of
                        Some err \<Rightarrow>
                          Inr (error_response 500 (''Failed to queue message: '' @ err),
                               [(q_type, message)])
                      | None \<Rightarrow>
                          Inr (\<lparr>p_statusCode = 200, p_headers = json_headers,
                                p_body = no_body\<lparr>pb_message_id := Some (new_uuid env),
                                                  pb_timestamp := Some (utc_stamp (now_sent env)),
                                                  pb_queue_type := Some q_type,
                                                  pb_status := Some ''queued'',
                                                  pb_passenger_name := Some p_name\<rparr>\<rparr>,
                               [(q_type, message)]))))))"

definition producer_handler ::
  "producer_event \<Rightarrow> producer_env \<Rightarrow> producer_response \<times> (string \<times> queue_message) list" where
  "producer_handler event env =
     (case producer_try event env of
        Inr result \<Rightarrow> result
      | Inl JSONDecodeError \<Rightarrow> (error_response 400 ''Invalid JSON in request body'', [])
      | Inl e \<Rightarrow>
          (\<lparr>p_statusCode = 500, p_headers = json_headers,
            p_body = no_body\<lparr>pb_error := Some ''Internal server error'', pb_details := Some e\<rparr>\<rparr>, []))"

section \<open>Auxiliary notions for the proofs\<close>

text \<open>
  The unit in the last place of the 53-bit rounding of \<open>n\<close>, the spacing of the doubles
  around \<open>x\<close>, and the latency in milliseconds that \<^verbatim>\<open>calculate_latency\<close> computes from
  a difference in microseconds.
\<close>

definition ulp53 :: "nat \<Rightarrow> nat" where
  "ulp53 n = 2 ^ (bit_length n - 53)"

definition double_ulp :: "rat \<Rightarrow> rat" where
  "double_ulp x = power_int 2 (max (float_exponent x) (- 1022) - 52)"

definition ms_of_us :: "int \<Rightarrow> rat" where
  "ms_of_us us = round_double (total_seconds us * 1000)"

text \<open>
  The closed form of \<^verbatim>\<open>calculate_statistics\<close>: the records of one queue type, the
  accumulator that the grouping loop builds for them, the keys in the order in which the
  loop first meets them, and the summary of one accumulator when nothing raises.
\<close>

definition group_of :: "string \<Rightarrow> metric list \<Rightarrow> metric list" where
  "group_of q ms = filter (\<lambda>m. metric_key m = q) ms"

definition stats_for :: "metric list \<Rightarrow> queue_stats" where
  "stats_for g =
     \<lparr>count = length g,
      latencies = map (\<lambda>m. get_or (latency_ms m) 0) g,
      processing_times = map (\<lambda>m. get_or (processing_time_ms m) 0) g,
      successful = length (filter (\<lambda>m. status m = Some ''successful'') g),
      failed = length (filter (\<lambda>m. status m \<noteq> Some ''successful'') g)\<rparr>"

definition first_seen :: "'a list \<Rightarrow> 'a list" where
  "first_seen ks = rev (remdups (rev ks))"

definition grouped :: "metric list \<Rightarrow> (string \<times> queue_stats) list" where
  "grouped ms = map (\<lambda>q. (q, stats_for (group_of q ms))) (first_seen (map metric_key ms))"

definition q_index :: "rat list \<Rightarrow> nat \<Rightarrow> nat" where
  "q_index xs m = (if 1 < length xs then int_len_times (length xs) m else 0)"

definition latency_of :: "rat list \<Rightarrow> latency_summary" where
  "latency_of xs =
     \<lparr>avg_ms = py_round (round_double (py_sum xs / of_nat (length xs))) 2,
      min_ms = py_round (foldl min (hd xs) (tl xs)) 2,
      max_ms = py_round (foldl max (hd xs) (tl xs)) 2,
      median_ms = py_round (xs ! (length xs div 2)) 2,
      p95_ms = py_round (xs ! q_index xs double_0_95) 2,
      p99_ms = py_round (xs ! q_index xs double_0_99) 2\<rparr>"

definition processing_of :: "rat list \<Rightarrow> processing_summary" where
  "processing_of xs =
     \<lparr>pt_avg_ms = py_round (round_double (py_sum xs / of_nat (length xs))) 2,
      pt_min_ms = py_round (foldl min (hd xs) (tl xs)) 2,
      pt_max_ms = py_round (foldl max (hd xs) (tl xs)) 2\<rparr>"

definition summary_of :: "queue_stats \<Rightarrow> stat_summary" where
  "summary_of stats =
     \<lparr>s_count = count stats,
      s_latency = latency_of (sort (latencies stats)),
      s_processing_time = processing_of (sort (processing_times stats)),
      success_rate = py_round (round_double (of_nat (successful stats) / of_nat (count stats))) 4,
      successful_count = successful stats,
      failed_count = failed stats\<rparr>"

text \<open>
  For the consumers: whether the iteration for a record of the push batch ends in the
  failed count; for a delivery of the pull loop, the metrics that reach the store (if
  any), the call on the channel that answers it, and whether it counts towards
  \<^verbatim>\<open>max_messages\<close>. \<open>poll_result\<close> relates the state after the pull loop to the
  deliveries \<open>ds\<close> that the loop has taken from the generator.
\<close>

definition record_fails :: "(nat \<Rightarrow> iteration_env) \<Rightarrow> nat \<times> sqs_record \<Rightarrow> bool" where
  "record_fails world ir =
     (case sqs_metrics (snd ir) (world (fst ir)) of
        Inl e \<Rightarrow> True
      | Inr metrics \<Rightarrow> \<not> store_metrics_to_s3 (world (fst ir)) metrics)"

definition persisted :: "(nat \<Rightarrow> iteration_env) \<Rightarrow> nat \<times> delivery \<Rightarrow> metric option" where
  "persisted world jd =
     (case rabbitmq_metrics (snd jd) (world (fst jd)) of
        Inl e \<Rightarrow> None
      | Inr metrics \<Rightarrow> if store_metrics_to_s3 (world (fst jd)) metrics then Some metrics else None)"

definition frame_op :: "(nat \<Rightarrow> iteration_env) \<Rightarrow> nat \<times> delivery \<Rightarrow> channel_op" where
  "frame_op world jd =
     (case persisted world jd of
        Some metrics \<Rightarrow> Basic_ack (d_delivery_tag (snd jd))
      | None \<Rightarrow> Basic_nack (d_delivery_tag (snd jd)) True)"

definition counted :: "(nat \<Rightarrow> iteration_env) \<Rightarrow> nat \<times> delivery \<Rightarrow> bool" where
  "counted world jd = (case rabbitmq_metrics (snd jd) (world (fst jd)) of Inl e \<Rightarrow> False | Inr metrics \<Rightarrow> True)"

definition poll_result ::
  "int \<Rightarrow> (nat \<Rightarrow> iteration_env) \<Rightarrow> nat \<Rightarrow> delivery option list \<Rightarrow> pull_state \<Rightarrow> pull_state \<Rightarrow> delivery list \<Rightarrow> bool" where
  "poll_result max_messages world i frames st st' ds =
     (length ds \<le> length frames \<and> map Some ds = take (length ds) frames
      \<and> channel_log st' = channel_log st @ map (frame_op world) (enumerate i ds)
      \<and> processed_messages st' = processed_messages st @ List.map_filter (persisted world) (enumerate i ds)
      \<and> messages_consumed st' = messages_consumed st + length (filter (counted world) (enumerate i ds))
      \<and> (length ds = length frames
          \<or> (length ds < length frames \<and> frames ! length ds = None)
          \<or> max_messages \<le> int (messages_consumed st')))"

text \<open>
  For the producer: a required field is missing when the object has no such key or its
  value is falsy; \<open>first_missing\<close> is the first such field in the order of
  \<open>required_fields\<close>.
\<close>

definition missing :: "(string \<times> jval) list \<Rightarrow> string \<Rightarrow> bool" where
  "missing b field = (case map_of b field of None \<Rightarrow> True | Some v \<Rightarrow> \<not> truthy v)"

definition first_missing :: "(string \<times> jval) list \<Rightarrow> string option" where
  "first_missing b = List.find (missing b) required_fields"

text \<open>A stored metric with the fields that the aggregator reads, for the examples.\<close>

definition stored_metric :: "string option \<Rightarrow> rat \<Rightarrow> string option \<Rightarrow> string \<Rightarrow> metric" where
  "stored_metric qt lat st received =
     \<lparr>message_id = Some ''m'', queue_type = qt, timestamp_sent = None,
      timestamp_received = Some received, timestamp_processed = None,
      latency_ms = Some lat, processing_time_ms = Some 250, status = st,
      passenger_name = None, current_address = None, destination = None,
      sqs_message_id = None, receipt_handle = None, delivery_tag = None\<rparr>"

definition five_latencies :: "metric list" where
  "five_latencies =
     [stored_metric (Some ''sqs'') 50 (Some ''successful'') ''2024-05-01T10:00:00.000001Z'',
      stored_metric (Some ''sqs'') 10 (Some ''successful'') ''2024-05-01T10:00:01.000001Z'',
      stored_metric (Some ''sqs'') 40 (Some ''successful'') ''2024-05-01T10:00:02.000001Z'',
      stored_metric (Some ''sqs'') 20 (Some ''successful'') ''2024-05-01T10:00:03.000001Z'',
      stored_metric (Some ''sqs'') 30 (Some ''successful'') ''2024-05-01T10:00:04.000001Z'']"

definition one_latency :: "metric list" where
  "one_latency = [stored_metric (Some ''rabbitmq'') 42 (Some ''successful'') ''2024-05-01T10:00:00.000001Z'']"

definition one_in_160 :: "metric list" where
  "one_in_160 =
     replicate 159 (stored_metric (Some ''sqs'') 12 (Some ''failed'') ''2024-05-01T10:00:00.000001Z'')
     @ [stored_metric (Some ''sqs'') 12 (Some ''successful'') ''2024-05-01T10:00:01.000001Z'']"

definition no_metrics_response :: comparison_response where
  "no_metrics_response =
     \<lparr>statusCode = 200, headers = json_headers,
      body = empty_body\<lparr>b_message := Some ''No metrics found'', b_total_messages := Some 0,
                        b_statistics := Some [], b_messages := Some []\<rparr>\<rparr>"

definition three_objects :: s3_listing where
  "three_objects = Some
     [(''sqs/20240501_100000_a.json'',
         Some (stored_metric (Some ''sqs'') 12 (Some ''successful'') ''2024-05-01T10:00:00.000001Z'')),
      (''readme.txt'', None),
      (''rabbitmq/20240501_100002_b.json'',
         Some (stored_metric (Some ''rabbitmq'') 7 (Some ''failed'') ''2024-05-01T10:00:02.000001Z'')),
      (''sqs/20240501_100001_c.json'',
         Some (stored_metric (Some ''sqs'') 30 (Some ''successful'') ''2024-05-01T10:00:01.000001Z''))]"

text \<open>Clock readings, environments and messages for the examples.\<close>

definition clock :: "nat \<Rightarrow> nat \<Rightarrow> pydatetime" where
  "clock s us = \<lparr>dt_year = 2024, dt_month = 5, dt_day = 1, dt_hour = 10, dt_minute = 0,
                 dt_second = s, dt_microsecond = us, dt_utcoffset = None\<rparr>"

definition example_env :: "nat \<Rightarrow> nat \<Rightarrow> bool \<Rightarrow> iteration_env" where
  "example_env s us ok =
     \<lparr>now_received = clock s us, now_processed = clock (s + 1) us,
      uniform_draw = 1 / 4, random_draw = 1 / 2, put_object_ok = ok\<rparr>"

definition ride_message :: "string \<Rightarrow> string option \<Rightarrow> json_text" where
  "ride_message mid sent =
     Object \<lparr>mb_message_id = Some mid, mb_timestamp_sent = sent,
             mb_passenger_name = Some ''Ada'', mb_current_address = Some ''1 Main St'',
             mb_destination = Some ''Airport''\<rparr>"

definition sqs_example :: "string \<Rightarrow> string option \<Rightarrow> sqs_record" where
  "sqs_example mid sent =
     \<lparr>body_field = Some (ride_message mid sent), messageId = Some ''sqs-1'', receiptHandle = Some ''rh-1''\<rparr>"

definition five_deliveries :: "delivery list" where
  "five_deliveries =
     map (\<lambda>tag. \<lparr>d_delivery_tag = tag, d_body = ride_message ''m'' (Some ''2024-05-01T09:59:59Z'')\<rparr>)
       [1, 2, 3, 4, 5]"

definition third_put_fails :: "nat \<Rightarrow> iteration_env" where
  "third_put_fails j = example_env 0 0 (j \<noteq> 2)"

definition three_records :: "sqs_record list" where
  "three_records =
     [sqs_example ''m-1'' (Some ''2024-05-01T09:59:59Z''),
      sqs_example ''m-2'' (Some ''2024-05-01T09:59:59Z''),
      \<lparr>body_field = Some Malformed, messageId = Some ''sqs-3'', receiptHandle = Some ''rh-3''\<rparr>]"

definition second_put_fails :: "nat \<Rightarrow> iteration_env" where
  "second_put_fails j = example_env 0 0 (j \<noteq> 1)"

definition producer_env0 :: producer_env where
  "producer_env0 = \<lparr>new_uuid = ''6f1c2a9e-0000-4000-8000-000000000001'', now_sent = clock 0 0,
                     send_error = None\<rparr>"

section \<open>Rounding to 53 bits\<close>

lemma bit_length_upper: "n < 2 ^ bit_length n"
proof (induction n rule: bit_length.induct)
  case (1 n)
  show ?case
  proof (cases "n = 0")
    case True
    then show ?thesis by (simp add: bit_length.simps)
  next
    case False
    with 1 have "n div 2 < 2 ^ bit_length (n div 2)" by simp
    then have "n < 2 * 2 ^ bit_length (n div 2)" by linarith
    with False show ?thesis by (subst bit_length.simps) simp
  qed
qed

lemma bit_length_lower: "0 < n \<Longrightarrow> 2 ^ (bit_length n - 1) \<le> n"
proof (induction n rule: bit_length.induct)
  case (1 n)
  show ?case
  proof (cases "n div 2 = 0")
    case True
    with 1(2) have "n = 1" by linarith
    then show ?thesis by (simp add: bit_length.simps)
  next
    case False
    with 1 have ih: "2 ^ (bit_length (n div 2) - 1) \<le> n div 2" by simp
    from False have "bit_length (n div 2) \<noteq> 0" by (subst bit_length.simps) simp
    then obtain k where k: "bit_length (n div 2) = Suc k" by (cases "bit_length (n div 2)") auto
    from 1(2) have "bit_length n = Suc (bit_length (n div 2))" by (subst bit_length.simps) simp
    with ih k show ?thesis by simp
  qed
qed

lemma bit_length_le: "n < 2 ^ k \<Longrightarrow> bit_length n \<le> k"
proof (rule ccontr)
  assume a: "n < 2 ^ k" and "\<not> bit_length n \<le> k"
  then have kl: "k \<le> bit_length n - 1" by simp
  show False
  proof (cases "n = 0")
    case True then show ?thesis using \<open>\<not> bit_length n \<le> k\<close> by (simp add: bit_length.simps)
  next
    case False
    then have "2 ^ (bit_length n - 1) \<le> n" using bit_length_lower by simp
    moreover have "(2::nat) ^ k \<le> 2 ^ (bit_length n - 1)" using kl by (rule power_increasing) simp
    ultimately show False using a by linarith
  qed
qed


lemma round53_small: "n < 2 ^ 53 \<Longrightarrow> round53 n = n"
  using bit_length_le [of n 53] by (simp add: round53_def)

lemma round53_near:
  "ulp53 n dvd round53 n" "2 * round53 n \<le> 2 * n + ulp53 n" "2 * n \<le> 2 * round53 n + ulp53 n"
proof -
  define s where "s = bit_length n - 53"
  define q where "q = n div 2 ^ s"
  define r where "r = n mod 2 ^ s"
  have n: "n = q * 2 ^ s + r" using div_mult_mod_eq [of n "2 ^ s"] by (simp add: q_def r_def)
  have r: "r < 2 ^ s" by (simp add: r_def)
  have rd: "round53 n = (if bit_length n \<le> 53 then n
     else (if 2 ^ s < 2 * r \<or> (2 * r = 2 ^ s \<and> odd q) then q + 1 else q) * 2 ^ s)"
    by (auto simp add: round53_def Let_def s_def q_def r_def)
  have u: "ulp53 n = 2 ^ s" by (simp add: ulp53_def s_def)
  show "ulp53 n dvd round53 n"
  proof (cases "bit_length n \<le> 53")
    case True then show ?thesis by (simp add: rd u s_def)
  next
    case False then show ?thesis by (simp add: rd u)
  qed
  show "2 * round53 n \<le> 2 * n + ulp53 n"
  proof (cases "bit_length n \<le> 53")
    case True then show ?thesis by (simp add: rd)
  next
    case False
    show ?thesis
    proof (cases "2 ^ s < 2 * r \<or> (2 * r = 2 ^ s \<and> odd q)")
      case True
      with False have "round53 n = q * 2 ^ s + 2 ^ s" by (simp add: rd algebra_simps)
      with True n u show ?thesis by auto
    next
      case f: False
      with False have "round53 n = q * 2 ^ s" by (simp add: rd)
      with n u show ?thesis by simp
    qed
  qed
  show "2 * n \<le> 2 * round53 n + ulp53 n"
  proof (cases "bit_length n \<le> 53")
    case True then show ?thesis by (simp add: rd)
  next
    case False
    show ?thesis
    proof (cases "2 ^ s < 2 * r \<or> (2 * r = 2 ^ s \<and> odd q)")
      case True
      with False have "round53 n = q * 2 ^ s + 2 ^ s" by (simp add: rd algebra_simps)
      with n u r show ?thesis by simp
    next
      case f: False
      with False have "round53 n = q * 2 ^ s" by (simp add: rd)
      moreover from f have "2 * r \<le> 2 ^ s" by auto
      ultimately show ?thesis using n u by simp
    qed
  qed
qed

lemma ulp53_le: "2 ^ 52 * ulp53 n \<le> n \<or> ulp53 n = 1"
proof (cases "bit_length n \<le> 53")
  case True then show ?thesis by (simp add: ulp53_def)
next
  case False
  then have pos: "0 < n" by (cases "n = 0") (simp_all add: bit_length.simps)
  from False have "bit_length n - 1 = 52 + (bit_length n - 53)" by simp
  then have "(2::nat) ^ (bit_length n - 1) = 2 ^ (52 + (bit_length n - 53))"
    by (rule arg_cong)
  also have "\<dots> = 2 ^ 52 * ulp53 n"
    unfolding ulp53_def by (rule power_add)
  finally have "(2::nat) ^ (bit_length n - 1) = 2 ^ 52 * ulp53 n" .
  with bit_length_lower [OF pos] show ?thesis by simp
qed

lemma ulp53_gt: "n < 2 ^ 53 * ulp53 n"
proof (cases "bit_length n \<le> 53")
  case True
  then have "(2::nat) ^ bit_length n \<le> 2 ^ 53" by (intro power_increasing) simp_all
  with bit_length_upper [of n] True show ?thesis by (simp add: ulp53_def)
next
  case False
  then have "bit_length n = 53 + (bit_length n - 53)" by simp
  then have "(2::nat) ^ bit_length n = 2 ^ (53 + (bit_length n - 53))"
    by (rule arg_cong)
  also have "\<dots> = 2 ^ 53 * ulp53 n"
    unfolding ulp53_def by (rule power_add)
  finally have "(2::nat) ^ bit_length n = 2 ^ 53 * ulp53 n" .
  with bit_length_upper [of n] show ?thesis by simp
qed

lemma round53_rel: "2 ^ 53 * round53 n \<le> (2 ^ 53 + 1) * n"
proof (cases "ulp53 n = 1")
  case True
  have "bit_length n - 53 = 0"
  proof (rule ccontr)
    assume "bit_length n - 53 \<noteq> 0"
    then have "(2::nat) ^ 1 \<le> 2 ^ (bit_length n - 53)" by (intro power_increasing) simp_all
    with True show False by (simp add: ulp53_def)
  qed
  then have "round53 n = n" by (simp add: round53_def)
  then show ?thesis by simp
next
  case False
  with ulp53_le [of n] have a: "2 ^ 52 * ulp53 n \<le> n" by simp
  have "2 ^ 53 * round53 n = 2 ^ 52 * (2 * round53 n)" by simp
  also have "\<dots> \<le> 2 ^ 52 * (2 * n + ulp53 n)"
    using round53_near(2) [of n] by (rule mult_le_mono2)
  also have "\<dots> = 2 ^ 53 * n + 2 ^ 52 * ulp53 n" by (simp add: algebra_simps)
  also have "\<dots> \<le> 2 ^ 53 * n + n" using a by simp
  also have "\<dots> = (2 ^ 53 + 1) * n" by (simp add: algebra_simps)
  finally show ?thesis .
qed


lemma dvd_gap:
  fixes a b e :: nat
  assumes "e dvd a" "e dvd b" "a < b"
  shows "a + e \<le> b"
proof -
  from assms(1,2) have "e dvd b - a" by (rule dvd_diff_nat[rotated])
  moreover from assms(3) have "0 < b - a" by simp
  ultimately have "e \<le> b - a" by (rule dvd_imp_le)
  with assms(3) show ?thesis by simp
qed

lemma ulp53_dvd_pow:
  assumes "n < 2 ^ 105"
  shows "ulp53 n dvd 2 ^ 52"
proof -
  from assms have "bit_length n \<le> 105" by (rule bit_length_le)
  then have "bit_length n - 53 \<le> 52" by simp
  then show ?thesis unfolding ulp53_def by (rule le_imp_power_dvd)
qed

lemma int_len_times_less:
  assumes "0 < L" "m \<le> double_0_99"
  shows "int_len_times L m < L"
proof -
  define I where "I = round53 (round53 L * m)"
  have a: "2 ^ 53 * I \<le> (2 ^ 53 + 1) * (round53 L * m)"
    unfolding I_def by (rule round53_rel)
  have b: "2 ^ 53 * round53 L \<le> (2 ^ 53 + 1) * L" by (rule round53_rel)
  have "2 ^ 53 * (2 ^ 53 * I) \<le> 2 ^ 53 * ((2 ^ 53 + 1) * (round53 L * m))"
    using a by (rule mult_le_mono2)
  also have "\<dots> = ((2 ^ 53 + 1) * m) * (2 ^ 53 * round53 L)" by (simp add: algebra_simps)
  also have "\<dots> \<le> ((2 ^ 53 + 1) * m) * ((2 ^ 53 + 1) * L)"
    using b by (rule mult_le_mono2)
  also have "\<dots> = ((2 ^ 53 + 1) * (2 ^ 53 + 1) * m) * L" by (simp add: algebra_simps)
  also have "\<dots> \<le> ((2 ^ 53 + 1) * (2 ^ 53 + 1) * double_0_99) * L"
    using assms(2) by (intro mult_le_mono1 mult_le_mono2)
  also have "\<dots> < (2 ^ 53 * 2 ^ 53 * 2 ^ 52) * L"
    using assms(1) by (simp add: double_0_99_def)
  finally have "2 ^ 53 * 2 ^ 53 * I < 2 ^ 53 * 2 ^ 53 * (2 ^ 52 * L)" by (simp add: algebra_simps)
  then have "I < L * 2 ^ 52" by simp
  then have "I div 2 ^ 52 < L" by (simp add: div_less_iff_less_mult)
  then show ?thesis by (simp add: int_len_times_def I_def)
qed


lemma round53_zero: "round53 0 = 0"
  by (simp add: round53_def bit_length.simps)

lemma int_len_times_95:
  assumes "L < 2 ^ 40"
  shows "int_len_times L double_0_95 = L * 95 div 100"
proof (cases "L = 0")
  case True
  then show ?thesis by (simp add: int_len_times_def round53_zero)
next
  case False
  define N where "N = 4278419646001971 * L"
  define R where "R = round53 N"
  define E where "E = ulp53 N"
  define n where "n = L * 95 div 100"
  define r where "r = L * 95 mod 100"
  have L: "round53 L = L" using assms by (intro round53_small) simp
  have eq: "95 * L = 100 * n + r" and r: "r < 100"
    using div_mult_mod_eq [of "L * 95" 100] by (simp_all add: n_def r_def algebra_simps)
  have Nb: "N < 2 ^ 105" using assms by (simp add: N_def)
  have f1: "E dvd R" unfolding E_def R_def by (rule round53_near)
  have f2: "2 * R \<le> 2 * N + E" unfolding E_def R_def by (rule round53_near)
  have f3: "2 * N \<le> 2 * R + E" unfolding E_def R_def by (rule round53_near)
  have f4: "4503599627370496 * E \<le> N \<or> E = 1" using ulp53_le [of N] by (simp add: E_def)
  have f5: "N < 9007199254740992 * E" using ulp53_gt [of N] by (simp add: E_def)
  have f6: "E dvd 4503599627370496 * n"
    using ulp53_dvd_pow [OF Nb] by (simp add: E_def)
  have EL: "E \<le> L" using f4 False by (auto simp: N_def)
  have upper: "R < 4503599627370496 * n + 4503599627370496"
    using f2 EL eq r assms by (simp add: N_def)
  have lower: "4503599627370496 * n \<le> R"
  proof (rule ccontr)
    assume "\<not> 4503599627370496 * n \<le> R"
    then have "R < 4503599627370496 * n" by simp
    with f1 f6 have "R + E \<le> 4503599627370496 * n" by (rule dvd_gap)
    with f3 f5 eq assms False show False by (simp add: N_def)
  qed
  have "R div 4503599627370496 = n"
    using lower upper by (intro div_nat_eqI) (simp_all add: algebra_simps)
  then show ?thesis
    by (simp add: int_len_times_def L double_0_95_def R_def N_def n_def mult.commute)
qed

lemma int_len_times_99:
  assumes "L < 2 ^ 40"
  shows "int_len_times L double_0_99 = L * 99 div 100"
proof (cases "L = 0")
  case True
  then show ?thesis by (simp add: int_len_times_def round53_zero)
next
  case False
  define N where "N = 4458563631096791 * L"
  define R where "R = round53 N"
  define E where "E = ulp53 N"
  define n where "n = L * 99 div 100"
  define r where "r = L * 99 mod 100"
  have L: "round53 L = L" using assms by (intro round53_small) simp
  have eq: "99 * L = 100 * n + r" and r: "r < 100"
    using div_mult_mod_eq [of "L * 99" 100] by (simp_all add: n_def r_def algebra_simps)
  have Nb: "N < 2 ^ 105" using assms by (simp add: N_def)
  have f1: "E dvd R" unfolding E_def R_def by (rule round53_near)
  have f2: "2 * R \<le> 2 * N + E" unfolding E_def R_def by (rule round53_near)
  have f3: "2 * N \<le> 2 * R + E" unfolding E_def R_def by (rule round53_near)
  have f4: "4503599627370496 * E \<le> N \<or> E = 1" using ulp53_le [of N] by (simp add: E_def)
  have f5: "N < 9007199254740992 * E" using ulp53_gt [of N] by (simp add: E_def)
  have f6: "E dvd 4503599627370496 * n"
    using ulp53_dvd_pow [OF Nb] by (simp add: E_def)
  have EL: "E \<le> L" using f4 False by (auto simp: N_def)
  have upper: "R < 4503599627370496 * n + 4503599627370496"
    using f2 EL eq r assms by (simp add: N_def)
  have lower: "4503599627370496 * n \<le> R"
  proof (rule ccontr)
    assume "\<not> 4503599627370496 * n \<le> R"
    then have "R < 4503599627370496 * n" by simp
    with f1 f6 have "R + E \<le> 4503599627370496 * n" by (rule dvd_gap)
    with f3 f5 eq assms False show False by (simp add: N_def)
  qed
  have "R div 4503599627370496 = n"
    using lower upper by (intro div_nat_eqI) (simp_all add: algebra_simps)
  then show ?thesis
    by (simp add: int_len_times_def L double_0_99_def R_def N_def n_def mult.commute)
qed

section \<open>Rounding to the nearest double\<close>

lemma round_half_even_cases:
  fixes x :: rat
  obtains "round_half_even x = \<lfloor>x\<rfloor>" "x - of_int \<lfloor>x\<rfloor> \<le> 1 / 2"
  | "round_half_even x = \<lfloor>x\<rfloor> + 1" "1 / 2 \<le> x - of_int \<lfloor>x\<rfloor>"
  unfolding round_half_even_def Let_def
  by (cases "x - of_int \<lfloor>x\<rfloor> < 1 / 2"; cases "1 / 2 < x - of_int \<lfloor>x\<rfloor>"; cases "even \<lfloor>x\<rfloor>") auto

lemma round_half_even_bounds:
  fixes x :: rat
  shows "of_int (round_half_even x) - x \<le> 1 / 2" "x - of_int (round_half_even x) \<le> 1 / 2"
proof -
  define f where "f = \<lfloor>x\<rfloor>"
  have a: "of_int f \<le> x" unfolding f_def by (rule of_int_floor_le)
  have b: "x < of_int f + 1" unfolding f_def by linarith
  show "of_int (round_half_even x) - x \<le> 1 / 2"
    by (rule round_half_even_cases [of x]) (use a b in \<open>simp_all add: f_def [symmetric]\<close>)
  show "x - of_int (round_half_even x) \<le> 1 / 2"
    by (rule round_half_even_cases [of x]) (use a b in \<open>simp_all add: f_def [symmetric]\<close>)
qed

lemma round_half_even_nonneg:
  fixes x :: rat
  assumes "0 \<le> x"
  shows "0 \<le> round_half_even x"
proof -
  from assms have "0 \<le> \<lfloor>x\<rfloor>" by simp
  then show ?thesis by (rule_tac round_half_even_cases [of x]) simp_all
qed

lemma power_int_2_nat: "power_int (2::rat) (int n) = 2 ^ n"
  by (simp add: power_int_def)

lemma power_int_2_neg: "power_int (2::rat) (- int n) = 1 / 2 ^ n"
  by (simp add: power_int_minus inverse_eq_divide)

lemma float_exponent_bounds:
  assumes "x \<noteq> 0"
  shows "power_int 2 (float_exponent x) \<le> \<bar>x\<bar>" "\<bar>x\<bar> < power_int 2 (float_exponent x + 1)"
proof -
  define a where "a = \<bar>x\<bar>"
  have apos: "0 < a" using assms by (simp add: a_def)
  have "power_int 2 (float_exponent x) \<le> a \<and> a < power_int 2 (float_exponent x + 1)"
  proof (cases "1 \<le> a")
    case True
    define n where "n = nat \<lfloor>a\<rfloor>"
    have n1: "1 \<le> \<lfloor>a\<rfloor>" using True by simp
    then have npos: "0 < n" by (simp add: n_def)
    have nle: "of_nat n \<le> a" using n1 by (simp add: n_def)
    have alt: "a < of_nat n + 1"
    proof -
      have "a < of_int \<lfloor>a\<rfloor> + 1" by linarith
      moreover have "(of_int \<lfloor>a\<rfloor> :: rat) = of_nat n" using n1 by (simp add: n_def)
      ultimately show ?thesis by simp
    qed
    obtain k where k: "bit_length n = Suc k"
      using npos by (cases "bit_length n") (simp_all add: bit_length.simps)
    have e: "float_exponent x = int k"
      using True by (simp add: float_exponent_def a_def [symmetric] n_def [symmetric] k)
    have lo: "2 ^ k \<le> n" using bit_length_lower [OF npos] by (simp add: k)
    have hi: "n < 2 ^ Suc k" using bit_length_upper [of n] by (simp add: k)
    have "(2::rat) ^ k \<le> of_nat n" using lo by (metis of_nat_le_iff of_nat_numeral of_nat_power)
    with nle have "(2::rat) ^ k \<le> a" by linarith
    then have 1: "power_int 2 (float_exponent x) \<le> a"
      by (simp only: e power_int_2_nat)
    have "n + 1 \<le> 2 ^ Suc k" using hi by simp
    then have "(of_nat (n + 1) :: rat) \<le> of_nat (2 ^ Suc k)" by (simp only: of_nat_le_iff)
    then have "(of_nat n :: rat) + 1 \<le> 2 ^ Suc k" by simp
    with alt have "a < 2 ^ Suc k" by linarith
    moreover have "float_exponent x + 1 = int (Suc k)" by (simp add: e)
    ultimately have 2: "a < power_int 2 (float_exponent x + 1)"
      by (simp only: power_int_2_nat)
    from 1 2 show ?thesis ..
  next
    case False
    then have a1: "a < 1" by simp
    define y where "y = 1 / a"
    have y1: "1 < y" using apos a1 by (simp add: y_def)
    define m where "m = nat (\<lceil>y\<rceil> - 1)"
    have c2: "2 \<le> \<lceil>y\<rceil>" using y1 by (simp add: le_ceiling_iff) 
    then have mpos: "0 < m" by (simp add: m_def)
    have ym: "y \<le> of_nat m + 1"
    proof -
      have "y \<le> of_int \<lceil>y\<rceil>" by simp
      moreover have "(of_int \<lceil>y\<rceil> :: rat) = of_nat m + 1" using c2 by (simp add: m_def)
      ultimately show ?thesis by simp
    qed
    have my: "of_nat m < y"
    proof -
      have "of_int \<lceil>y\<rceil> - 1 < y" by linarith
      moreover have "(of_int \<lceil>y\<rceil> :: rat) = of_nat m + 1" using c2 by (simp add: m_def)
      ultimately show ?thesis by simp
    qed
    obtain k where k: "bit_length m = Suc k"
      using mpos by (cases "bit_length m") (simp_all add: bit_length.simps)
    have e: "float_exponent x = - int (Suc k)"
      using False by (simp add: float_exponent_def a_def [symmetric] y_def [symmetric] m_def [symmetric] k)
    have lo: "2 ^ k \<le> m" using bit_length_lower [OF mpos] by (simp add: k)
    have hi: "m < 2 ^ Suc k" using bit_length_upper [of m] by (simp add: k)
    have "m + 1 \<le> 2 ^ Suc k" using hi by simp
    then have "(of_nat (m + 1) :: rat) \<le> of_nat (2 ^ Suc k)" by (simp only: of_nat_le_iff)
    then have "y \<le> 2 ^ Suc k" using ym by simp
    then have "1 / a \<le> 2 ^ Suc k" by (simp add: y_def)
    then have "1 \<le> a * 2 ^ Suc k" using apos by (simp add: field_simps)
    then have "1 / 2 ^ Suc k \<le> a" by (simp add: field_simps)
    then have 1: "power_int 2 (float_exponent x) \<le> a"
      by (simp only: e power_int_2_neg)
    have "(2::rat) ^ k \<le> of_nat m" using lo by (metis of_nat_le_iff of_nat_numeral of_nat_power)
    with my have "2 ^ k < y" by linarith
    then have "2 ^ k < 1 / a" by (simp only: y_def)
    then have "a * 2 ^ k < 1" using apos by (simp add: field_simps)
    then have "a < 1 / 2 ^ k" by (simp add: field_simps)
    moreover have "float_exponent x + 1 = - int k" by (simp add: e)
    then have "power_int (2::rat) (float_exponent x + 1) = 1 / 2 ^ k"
      by (simp only: power_int_2_neg)
    ultimately have 2: "a < power_int 2 (float_exponent x + 1)" by simp
    from 1 2 show ?thesis ..
  qed
  then show "power_int 2 (float_exponent x) \<le> \<bar>x\<bar>" "\<bar>x\<bar> < power_int 2 (float_exponent x + 1)"
    by (simp_all add: a_def)
qed

lemma round_double_ulp:
  "round_double x = (if x = 0 then 0 else of_int (round_half_even (x / double_ulp x)) * double_ulp x)"
  by (simp add: round_double_def double_ulp_def Let_def)

lemma double_ulp_pos: "0 < double_ulp x"
  by (simp add: double_ulp_def)

lemma float_exponent_unique:
  assumes "power_int 2 e \<le> \<bar>x\<bar>" "\<bar>x\<bar> < power_int 2 (e + 1)"
  shows "float_exponent x = e"
proof -
  have x: "x \<noteq> 0"
  proof
    assume "x = 0"
    with assms(1) have "power_int (2::rat) e \<le> 0" by simp
    moreover have "0 < power_int (2::rat) e" by simp
    ultimately show False by linarith
  qed
  note b = float_exponent_bounds [OF x]
  show ?thesis
  proof (rule ccontr)
    assume "float_exponent x \<noteq> e"
    then consider "float_exponent x + 1 \<le> e" | "e + 1 \<le> float_exponent x" by linarith
    then show False
    proof cases
      case 1
      then have "power_int (2::rat) (float_exponent x + 1) \<le> power_int 2 e"
        by (rule power_int_increasing) simp
      with b(2) assms(1) show False by linarith
    next
      case 2
      then have "power_int (2::rat) (e + 1) \<le> power_int 2 (float_exponent x)"
        by (rule power_int_increasing) simp
      with b(1) assms(2) show False by linarith
    qed
  qed
qed

lemma round_double_error:
  "\<bar>round_double x - x\<bar> \<le> double_ulp x / 2"
proof (cases "x = 0")
  case True
  then show ?thesis using double_ulp_pos [of x] by (simp add: round_double_ulp)
next
  case False
  define u where "u = double_ulp x"
  define k :: rat where "k = of_int (round_half_even (x / u))"
  have u: "0 < u" unfolding u_def by (rule double_ulp_pos)
  have "k - x / u \<le> 1 / 2" "x / u - k \<le> 1 / 2"
    unfolding k_def by (rule round_half_even_bounds)+
  then have "\<bar>k - x / u\<bar> \<le> 1 / 2" by linarith
  then have "\<bar>k - x / u\<bar> * u \<le> 1 / 2 * u" using u by (intro mult_right_mono) simp_all
  moreover have "\<bar>k - x / u\<bar> * u = \<bar>k * u - x\<bar>"
  proof -
    have "\<bar>k - x / u\<bar> * u = \<bar>(k - x / u) * u\<bar>" using u by (simp add: abs_mult)
    also have "(k - x / u) * u = k * u - x" using u by (simp add: field_simps)
    finally show ?thesis .
  qed
  ultimately have "\<bar>k * u - x\<bar> \<le> u / 2" by simp
  then show ?thesis using False by (simp add: round_double_ulp u_def [symmetric] k_def)
qed

lemma double_ulp_normal:
  assumes "power_int 2 (- 1022) \<le> \<bar>x\<bar>"
  shows "double_ulp x \<le> \<bar>x\<bar> / 2 ^ 52"
proof -
  have x: "x \<noteq> 0"
  proof
    assume "x = 0"
    with assms have "power_int (2::rat) (- 1022) \<le> 0" by simp
    moreover have "0 < power_int (2::rat) (- 1022)" by (rule zero_less_power_int) simp
    ultimately show False by linarith
  qed
  note b = float_exponent_bounds [OF x]
  have "- 1022 \<le> float_exponent x"
  proof (rule ccontr)
    assume "\<not> - 1022 \<le> float_exponent x"
    then have "float_exponent x + 1 \<le> - 1022" by simp
    then have "power_int (2::rat) (float_exponent x + 1) \<le> power_int 2 (- 1022)"
      by (rule power_int_increasing) simp
    with b(2) assms show False by linarith
  qed
  then have "double_ulp x = power_int 2 (float_exponent x - 52)"
    by (simp add: double_ulp_def max_def)
  also have "\<dots> = power_int 2 (float_exponent x) / power_int 2 52"
    by (rule power_int_diff) simp
  also have "\<dots> \<le> \<bar>x\<bar> / power_int 2 52"
    using b(1) by (intro divide_right_mono) simp_all
  finally show ?thesis by simp
qed

lemma round_double_relative:
  assumes "power_int 2 (- 1022) \<le> \<bar>x\<bar>"
  shows "\<bar>round_double x - x\<bar> \<le> \<bar>x\<bar> / 2 ^ 53"
proof -
  have "\<bar>round_double x - x\<bar> \<le> double_ulp x / 2" by (rule round_double_error)
  also have "\<dots> \<le> (\<bar>x\<bar> / 2 ^ 52) / 2"
    using double_ulp_normal [OF assms] by (intro divide_right_mono) simp_all
  finally show ?thesis by simp
qed

lemma round_double_nonneg: "0 \<le> x \<Longrightarrow> 0 \<le> round_double x"
  using double_ulp_pos [of x]
  by (simp add: round_double_ulp round_half_even_nonneg)

lemma round_half_even_of_int: "round_half_even (of_int n) = n"
  by (simp add: round_half_even_def)

lemma round_half_even_minus: "round_half_even (- x) = - round_half_even x"
proof -
  define f where "f = \<lfloor>x\<rfloor>"
  show ?thesis
  proof (cases "x = of_int f")
    case True
    then have "round_half_even x = f" "round_half_even (- x) = - f"
      using round_half_even_of_int [of f] round_half_even_of_int [of "- f"] by simp_all
    then show ?thesis by simp
  next
    case False
    have a: "of_int f \<le> x" unfolding f_def by (rule of_int_floor_le)
    have b: "x < of_int f + 1" unfolding f_def by linarith
    from False a have a': "of_int f < x" by simp
    have fl: "\<lfloor>- x\<rfloor> = - f - 1"
      using a' b by (intro floor_unique) simp_all
    have ev: "even (- f - 1) \<longleftrightarrow> odd f" by simp
    show ?thesis
      unfolding round_half_even_def Let_def fl f_def [symmetric]
      using a' b by (auto simp: ev)
  qed
qed

lemma round_double_minus: "round_double (- x) = - round_double x"
proof -
  have "float_exponent (- x) = float_exponent x" by (simp add: float_exponent_def)
  then have "double_ulp (- x) = double_ulp x" by (simp add: double_ulp_def)
  then show ?thesis by (simp add: round_double_ulp round_half_even_minus)
qed

lemma round_double_nonpos: "x \<le> 0 \<Longrightarrow> round_double x \<le> 0"
  using round_double_nonneg [of "- x"] by (simp add: round_double_minus)

lemma round_double_eval:
  assumes "power_int 2 e \<le> \<bar>x\<bar>" "\<bar>x\<bar> < power_int 2 (e + 1)" "- 1022 \<le> e"
  shows "round_double x = of_int (round_half_even (x / power_int 2 (e - 52))) * power_int 2 (e - 52)"
proof -
  have e: "float_exponent x = e" using assms(1,2) by (rule float_exponent_unique)
  have "x \<noteq> 0"
  proof
    assume "x = 0"
    with assms(1) have "power_int (2::rat) e \<le> 0" by simp
    moreover have "0 < power_int (2::rat) e" by simp
    ultimately show False by linarith
  qed
  then show ?thesis using assms(3) by (simp add: round_double_ulp double_ulp_def e max_def)
qed

lemma round_half_even_near:
  assumes "\<bar>y - of_int k\<bar> < 1 / 2"
  shows "round_half_even y = k"
proof -
  have "y - of_int (round_half_even y) \<le> 1 / 2" "of_int (round_half_even y) - y \<le> 1 / 2"
    by (rule round_half_even_bounds)+
  with assms have "\<bar>(of_int (round_half_even y) :: rat) - of_int k\<bar> < 1" by linarith
  then have "\<bar>(of_int (round_half_even y - k) :: rat)\<bar> < 1" by simp
  then have "\<bar>round_half_even y - k\<bar> < 1" by (simp only: of_int_abs [symmetric] of_int_less_1_iff)
  then show ?thesis by simp
qed

lemma round_double_of_nat:
  assumes "n < 2 ^ 53"
  shows "round_double (of_nat n) = of_nat n"
proof (cases "n = 0")
  case True
  then show ?thesis by (simp add: round_double_def)
next
  case False
  then have npos: "0 < n" by simp
  obtain k where k: "bit_length n = Suc k"
    using npos by (cases "bit_length n") (simp_all add: bit_length.simps)
  have lo: "2 ^ k \<le> n" using bit_length_lower [OF npos] by (simp add: k)
  have hi: "n < 2 ^ Suc k" using bit_length_upper [of n] by (simp add: k)
  have "bit_length n \<le> 53" using assms by (rule bit_length_le)
  then have k52: "k \<le> 52" by (simp add: k)
  define j where "j = 52 - k"
  have kj: "int k - 52 = - int j" using k52 by (simp add: j_def)
  have a: "power_int 2 (int k) \<le> \<bar>(of_nat n :: rat)\<bar>"
  proof -
    have "(of_nat (2 ^ k) :: rat) \<le> of_nat n" using lo by (simp only: of_nat_le_iff)
    then show ?thesis by simp
  qed
  have b: "\<bar>(of_nat n :: rat)\<bar> < power_int 2 (int k + 1)"
  proof -
    have "(of_nat n :: rat) < of_nat (2 ^ Suc k)" using hi by (simp only: of_nat_less_iff)
    moreover have "int k + 1 = int (Suc k)" by simp
    ultimately show ?thesis by (simp only: power_int_of_nat) simp
  qed
  have "round_double (of_nat n) =
      of_int (round_half_even (of_nat n / power_int 2 (int k - 52))) * power_int 2 (int k - 52)"
    using a b by (rule round_double_eval) simp
  also have "of_nat n / power_int (2::rat) (int k - 52) = of_int (int n * 2 ^ j)"
    by (simp add: kj power_int_minus field_simps)
  also have "round_half_even (of_int (int n * 2 ^ j)) = int n * 2 ^ j"
    by (rule round_half_even_of_int)
  also have "of_int (int n * 2 ^ j) * power_int (2::rat) (int k - 52) = of_nat n"
    by (simp add: kj power_int_minus field_simps)
  finally show ?thesis .
qed

lemma round_double_of_int:
  assumes "\<bar>k\<bar> < 2 ^ 53"
  shows "round_double (of_int k) = of_int k"
proof (cases "0 \<le> k")
  case True
  then have eq: "(of_nat (nat k) :: rat) = of_int k" by simp
  have "nat k < 2 ^ 53" using assms True by (simp add: nat_less_iff)
  then have "round_double (of_nat (nat k)) = of_nat (nat k)" by (rule round_double_of_nat)
  then show ?thesis unfolding eq .
next
  case False
  then have eq: "(of_nat (nat (- k)) :: rat) = - of_int k" by simp
  have "nat (- k) < 2 ^ 53" using assms False by (simp add: nat_less_iff)
  then have "round_double (of_nat (nat (- k))) = of_nat (nat (- k))" by (rule round_double_of_nat)
  then have "round_double (- of_int k) = - of_int k" unfolding eq .
  then show ?thesis by (simp add: round_double_minus)
qed

lemma tiny_le: "n \<le> 1022 \<Longrightarrow> power_int (2::rat) (- 1022) \<le> 1 / 2 ^ n"
proof -
  assume "n \<le> 1022"
  then have "power_int (2::rat) (- 1022) \<le> power_int 2 (- int n)"
    by (intro power_int_increasing) simp_all
  then show ?thesis by (simp add: power_int_minus inverse_eq_divide)
qed

lemma rd_160: "round_double (1 / 160) = 7205759403792794 / 2 ^ 60"
proof -
  have "round_double (1 / 160) =
      of_int (round_half_even ((1 / 160) / power_int 2 (- 8 - 52))) * power_int 2 (- 8 - 52)"
    by (rule round_double_eval) simp_all
  also have "(1 / 160) / power_int (2::rat) (- 8 - 52) = 36028797018963968 / 5"
    by simp
  also have "round_half_even (36028797018963968 / 5) = 7205759403792794"
    by (rule round_half_even_near) simp
  finally show ?thesis by simp
qed

lemma rate_160: "py_round (round_double (1 / 160)) 4 = round_double (63 / 10000)"
proof -
  have "round_half_even (round_double (1 / 160) * 10 ^ 4) = 63"
    unfolding rd_160 by (rule round_half_even_near) simp
  then show ?thesis by (simp add: py_round_def)
qed

lemma exact_tie: "round_half_even ((1 / 160) * 10 ^ 4) = 62"
proof -
  have "\<lfloor>(1 / 160 * 10 ^ 4 :: rat)\<rfloor> = 62" by (rule floor_unique) simp_all
  then show ?thesis by (simp add: round_half_even_def Let_def)
qed

lemma ts_1001: "total_seconds 1001000 = 4508103226997866 / 2 ^ 52"
proof -
  have "round_double (1001 / 1000) =
      of_int (round_half_even ((1001 / 1000) / power_int 2 (0 - 52))) * power_int 2 (0 - 52)"
    by (rule round_double_eval) simp_all
  also have "(1001 / 1000) / power_int (2::rat) (0 - 52) = 4508103226997866496 / 1000"
    by simp
  also have "round_half_even (4508103226997866496 / 1000) = 4508103226997866"
    by (rule round_half_even_near) simp
  finally show ?thesis by (simp add: total_seconds_def)
qed

lemma ms_1001: "round_double (total_seconds 1001000 * 1000) = 8804889115230207 / 2 ^ 43"
proof -
  have "round_double (4508103226997866 / 2 ^ 52 * 1000) =
      of_int (round_half_even ((4508103226997866 / 2 ^ 52 * 1000) / power_int 2 (9 - 52))) * power_int 2 (9 - 52)"
    by (rule round_double_eval) simp_all
  also have "(4508103226997866 / 2 ^ 52 * 1000) / power_int (2::rat) (9 - 52) = 4508103226997866000 / 512"
    by simp
  also have "round_half_even (4508103226997866000 / 512) = 8804889115230207"
    by (rule round_half_even_near) simp
  finally show ?thesis by (simp add: ts_1001)
qed

lemma py_round_of_int:
  assumes "\<bar>k\<bar> < 2 ^ 53"
  shows "py_round (of_int k) nd = of_int k"
proof -
  have "(of_int k :: rat) * 10 ^ nd = of_int (k * 10 ^ nd)" by simp
  then have "round_half_even (of_int k * 10 ^ nd) = k * 10 ^ nd"
    by (simp only: round_half_even_of_int)
  then have "py_round (of_int k) nd = round_double (of_int (k * 10 ^ nd) / 10 ^ nd)"
    by (simp only: py_round_def)
  also have "(of_int (k * 10 ^ nd) :: rat) / 10 ^ nd = of_int k" by simp
  also have "round_double (of_int k) = of_int k" using assms by (rule round_double_of_int)
  finally show ?thesis .
qed

lemma py_round_nonneg: "0 \<le> x \<Longrightarrow> 0 \<le> py_round x nd"
proof -
  assume "0 \<le> x"
  then have "0 \<le> x * 10 ^ nd" by simp
  then have "0 \<le> round_half_even (x * 10 ^ nd)" by (rule round_half_even_nonneg)
  then have "(0::rat) \<le> of_int (round_half_even (x * 10 ^ nd)) / 10 ^ nd" by simp
  then show ?thesis unfolding py_round_def by (rule round_double_nonneg)
qed

lemma py_round_nearest:
  "\<exists>k. py_round x 2 = round_double (of_int k / 100) \<and> \<bar>of_int k - x * 100\<bar> \<le> 1 / 2"
proof -
  have "of_int (round_half_even (x * 100)) - x * 100 \<le> 1 / 2"
       "x * 100 - of_int (round_half_even (x * 100)) \<le> 1 / 2"
    by (rule round_half_even_bounds)+
  then have "\<bar>of_int (round_half_even (x * 100)) - x * 100\<bar> \<le> 1 / 2" by linarith
  moreover have "py_round x 2 = round_double (of_int (round_half_even (x * 100)) / 100)"
    by (simp add: py_round_def)
  ultimately show ?thesis by blast
qed

lemma normal_hundredth:
  assumes "k \<noteq> 0"
  shows "power_int 2 (- 1022) \<le> \<bar>(of_int k :: rat) / 100\<bar>"
proof -
  have "power_int (2::rat) (- 1022) \<le> 1 / 2 ^ 7" by (rule tiny_le) simp
  also have "\<dots> \<le> 1 / 100" by simp
  also have "(1::rat) \<le> \<bar>of_int k\<bar>" using assms by (simp flip: of_int_abs)
  then have "(1::rat) / 100 \<le> \<bar>of_int k\<bar> / 100" by simp
  finally show ?thesis by simp
qed

lemma py_round_two_decimals:
  assumes "\<bar>k\<bar> < 2 ^ 52"
  shows "py_round (round_double (of_int k / 100)) 2 = round_double (of_int k / 100)"
proof (cases "k = 0")
  case True
  then show ?thesis using py_round_of_int [of 0 2] by (simp add: round_double_def)
next
  case False
  define x :: rat where "x = of_int k / 100"
  define a :: rat where "a = \<bar>of_int k\<bar>"
  have "\<bar>round_double x - x\<bar> \<le> \<bar>x\<bar> / 2 ^ 53"
    unfolding x_def using False by (intro round_double_relative normal_hundredth)
  moreover have "\<bar>x\<bar> = a / 100" by (simp add: x_def a_def)
  ultimately have "\<bar>round_double x - x\<bar> \<le> a / 100 / 9007199254740992" by simp
  moreover have "a < 4503599627370496"
  proof -
    have "(of_int \<bar>k\<bar> :: rat) < of_int (2 ^ 52)" using assms by (simp only: of_int_less_iff)
    then show ?thesis by (simp add: a_def)
  qed
  moreover have "x * 100 = of_int k" by (simp add: x_def)
  ultimately have "\<bar>round_double x * 100 - of_int k\<bar> < 1 / 2" by linarith
  then have "round_half_even (round_double x * 100) = k" by (rule round_half_even_near)
  then show ?thesis by (simp add: py_round_def x_def)
qed

lemma total_seconds_accuracy:
  "\<bar>total_seconds us - of_int us / 1000000\<bar> \<le> \<bar>of_int us\<bar> / 1000000 / 2 ^ 53"
proof (cases "us = 0")
  case True
  then show ?thesis by (simp add: total_seconds_def round_double_def)
next
  case False
  have "power_int (2::rat) (- 1022) \<le> 1 / 2 ^ 20" by (rule tiny_le) simp
  also have "\<dots> \<le> 1 / 1000000" by simp
  also have "(1::rat) \<le> \<bar>of_int us\<bar>" using False by (simp flip: of_int_abs)
  then have "(1::rat) / 1000000 \<le> \<bar>of_int us\<bar> / 1000000" by simp
  finally have "power_int 2 (- 1022) \<le> \<bar>(of_int us :: rat) / 1000000\<bar>" by simp
  then have "\<bar>round_double (of_int us / 1000000) - of_int us / 1000000\<bar>
      \<le> \<bar>(of_int us :: rat) / 1000000\<bar> / 2 ^ 53"
    by (rule round_double_relative)
  then show ?thesis by (simp add: total_seconds_def)
qed

lemma ms_of_us_accuracy:
  "\<bar>ms_of_us us - of_int us / 1000\<bar> \<le> \<bar>of_int us\<bar> / 1000 / 2 ^ 51"
proof (cases "us = 0")
  case True
  then show ?thesis by (simp add: ms_of_us_def total_seconds_def round_double_def)
next
  case False
  define a :: rat where "a = \<bar>of_int us\<bar>"
  define s where "s = total_seconds us"
  define t where "t = s * 1000"
  have a1: "1 \<le> a" using False by (simp add: a_def flip: of_int_abs)
  have s: "\<bar>s - of_int us / 1000000\<bar> \<le> a / 1000000 / 9007199254740992"
    using total_seconds_accuracy [of us] by (simp add: s_def a_def)
  have ax: "\<bar>(of_int us :: rat) / 1000000\<bar> = a / 1000000" by (simp add: a_def)
  have tabs: "\<bar>t\<bar> = \<bar>s\<bar> * 1000" by (simp add: t_def abs_mult)
  have slo: "a / 1000000 / 2 \<le> \<bar>s\<bar>" using s ax by linarith
  have "power_int (2::rat) (- 1022) \<le> 1 / 2 ^ 11" by (rule tiny_le) simp
  also have "\<dots> \<le> 1 / 2000" by simp
  also have "\<dots> \<le> \<bar>t\<bar>" using slo a1 tabs by linarith
  finally have "\<bar>round_double t - t\<bar> \<le> \<bar>t\<bar> / 2 ^ 53" by (rule round_double_relative)
  then have r: "\<bar>round_double t - t\<bar> \<le> \<bar>t\<bar> / 9007199254740992" by simp
  have t1: "\<bar>t - of_int us / 1000\<bar> \<le> a / 1000 / 9007199254740992"
    using s unfolding t_def by linarith
  have t2: "\<bar>t\<bar> \<le> a / 1000 + a / 1000 / 9007199254740992"
    using s ax tabs by linarith
  have "\<bar>round_double t - of_int us / 1000\<bar> \<le> a / 1000 / 2251799813685248"
    using r t1 t2 a1 by linarith
  then show ?thesis by (simp add: ms_of_us_def t_def s_def a_def)
qed

lemma total_seconds_sign:
  "0 \<le> us \<Longrightarrow> 0 \<le> total_seconds us" "us \<le> 0 \<Longrightarrow> total_seconds us \<le> 0"
  by (simp_all add: total_seconds_def round_double_nonneg round_double_nonpos)

lemma ms_of_us_sign:
  "0 \<le> us \<Longrightarrow> 0 \<le> ms_of_us us" "us \<le> 0 \<Longrightarrow> ms_of_us us \<le> 0"
proof -
  show "0 \<le> us \<Longrightarrow> 0 \<le> ms_of_us us"
    unfolding ms_of_us_def by (rule round_double_nonneg) (simp add: total_seconds_sign)
  show "us \<le> 0 \<Longrightarrow> ms_of_us us \<le> 0"
    unfolding ms_of_us_def
    by (rule round_double_nonpos) (simp add: total_seconds_sign mult_le_0_iff)
qed

lemma ms_of_us_whole_seconds:
  assumes "\<bar>s\<bar> < 2 ^ 43"
  shows "ms_of_us (s * 1000000) = of_int (s * 1000)"
proof -
  have "\<bar>s\<bar> < 2 ^ 53" using assms by simp
  then have "round_double (of_int s) = of_int s" by (rule round_double_of_int)
  then have ts: "total_seconds (s * 1000000) = of_int s" by (simp add: total_seconds_def)
  have "\<bar>s * 1000\<bar> < 2 ^ 53" using assms by (simp add: abs_mult)
  then have "round_double (of_int (s * 1000)) = of_int (s * 1000)" by (rule round_double_of_int)
  then show ?thesis by (simp add: ms_of_us_def ts)
qed

lemma stored_hundredth:
  assumes "\<bar>us\<bar> < 2 ^ 50"
  shows "\<exists>k. py_round (ms_of_us us) 2 = round_double (of_int k / 100)
           \<and> \<bar>of_int k / 100 - of_int us / 1000\<bar> \<le> (1 / 200 :: rat)"
proof -
  define a :: rat where "a = \<bar>of_int us\<bar>"
  obtain k where r: "py_round (ms_of_us us) 2 = round_double (of_int k / 100)"
    and n: "\<bar>of_int k - ms_of_us us * 100\<bar> \<le> 1 / 2"
    using py_round_nearest [of "ms_of_us us"] by blast
  have acc: "\<bar>ms_of_us us - of_int us / 1000\<bar> \<le> a / 1000 / 2251799813685248"
    using ms_of_us_accuracy [of us] by (simp add: a_def)
  have "(of_int \<bar>us\<bar> :: rat) < of_int (2 ^ 50)" using assms by (simp only: of_int_less_iff)
  then have ab: "a < 1125899906842624" by (simp add: a_def)
  have a0: "0 \<le> a" by (simp add: a_def)
  from n acc ab a0 have "\<bar>(of_int k :: rat) * 10 - of_int us\<bar> < 6" by linarith
  then have "\<bar>(of_int (k * 10 - us) :: rat)\<bar> < of_int 6" by simp
  then have "\<bar>k * 10 - us\<bar> < 6" by (simp only: of_int_abs [symmetric] of_int_less_iff)
  then have "\<bar>k * 10 - us\<bar> \<le> 5" by simp
  then have "(of_int \<bar>k * 10 - us\<bar> :: rat) \<le> of_int 5" by (simp only: of_int_le_iff)
  then have "\<bar>(of_int k :: rat) * 10 - of_int us\<bar> \<le> 5" by simp
  then have "\<bar>of_int k / 100 - of_int us / 1000\<bar> \<le> (1 / 200 :: rat)" by linarith
  with r show ?thesis by blast
qed

lemma round_double_numeral:
  "(numeral k :: int) < 9007199254740992 \<Longrightarrow> round_double (numeral k) = numeral k"
  using round_double_of_int [of "numeral k"] by simp

lemma py_round_zero [simp]: "py_round 0 nd = 0"
  using py_round_of_int [of 0 nd] by simp

lemma py_round_numeral [simp]:
  "(numeral k :: int) < 9007199254740992 \<Longrightarrow> py_round (numeral k) nd = numeral k"
  using py_round_of_int [of "numeral k" nd] by simp

lemma py_round_neg_numeral [simp]:
  "(numeral k :: int) < 9007199254740992 \<Longrightarrow> py_round (- numeral k) nd = - numeral k"
  using py_round_of_int [of "- numeral k" nd] by simp

lemma round_double_quarter: "round_double (1 / 4) = 1 / 4"
proof -
  have "round_double (1 / 4) =
      of_int (round_half_even ((1 / 4) / power_int 2 (- 2 - 52))) * power_int 2 (- 2 - 52)"
    by (rule round_double_eval) simp_all
  also have "(1 / 4) / power_int (2::rat) (- 2 - 52) = of_int 4503599627370496"
    by simp
  also have "round_half_even (of_int 4503599627370496) = 4503599627370496"
    by (rule round_half_even_of_int)
  finally show ?thesis by simp
qed

lemma ms_of_us_quarter: "ms_of_us 250000 = 250"
proof -
  have ts: "total_seconds 250000 = 1 / 4" by (simp add: total_seconds_def round_double_quarter)
  have "ms_of_us 250000 = round_double (1 / 4 * 1000)" by (simp only: ms_of_us_def ts)
  also have "(1 / 4 * 1000 :: rat) = 250" by simp
  also have "round_double 250 = 250" by (simp add: round_double_numeral)
  finally show ?thesis .
qed

lemma double_0_02_small: "round_double (2 / 100) < 1 / 2"
proof -
  have p53: "(2::rat) ^ 53 = 9007199254740992" by simp
  have "power_int (2::rat) (- 1022) \<le> 1 / 2 ^ 6" by (rule tiny_le) simp
  also have "\<dots> \<le> \<bar>2 / 100\<bar>" by simp
  finally have "\<bar>round_double (2 / 100) - 2 / 100\<bar> \<le> \<bar>2 / 100 :: rat\<bar> / 2 ^ 53"
    by (rule round_double_relative)
  then show ?thesis unfolding p53 by linarith
qed

lemma rate_160_not_62: "round_double (63 / 10000) \<noteq> round_double (62 / 10000)"
proof -
  have p53: "(2::rat) ^ 53 = 9007199254740992" by simp
  have t: "power_int (2::rat) (- 1022) \<le> 1 / 2 ^ 8" by (rule tiny_le) simp
  have "power_int (2::rat) (- 1022) \<le> \<bar>63 / 10000\<bar>" using t by simp
  then have a: "\<bar>round_double (63 / 10000) - 63 / 10000\<bar> \<le> \<bar>63 / 10000 :: rat\<bar> / 2 ^ 53"
    by (rule round_double_relative)
  have "power_int (2::rat) (- 1022) \<le> \<bar>62 / 10000\<bar>" using t by simp
  then have b: "\<bar>round_double (62 / 10000) - 62 / 10000\<bar> \<le> \<bar>62 / 10000 :: rat\<bar> / 2 ^ 53"
    by (rule round_double_relative)
  from a b show ?thesis unfolding p53 by linarith
qed

section \<open>The grouping loop and the summary\<close>

lemma first_seen_snoc:
  "first_seen (ks @ [k]) = (if k \<in> set ks then first_seen ks else first_seen ks @ [k])"
  by (simp add: first_seen_def)

lemma first_seen_set [simp]: "set (first_seen ks) = set ks"
  by (simp add: first_seen_def)

lemma first_seen_distinct [simp]: "distinct (first_seen ks)"
  by (simp add: first_seen_def)

lemma add_metric_stats_for: "add_metric m (stats_for g) = stats_for (g @ [m])"
  by (simp add: add_metric_def stats_for_def)

lemma default_stats_for: "default_stats = stats_for []"
  by (simp add: default_stats_def stats_for_def)

lemma dd_update_present:
  "distinct ks \<Longrightarrow> k \<in> set ks \<Longrightarrow>
   dd_update (map (\<lambda>q. (q, F q)) ks) k f = map (\<lambda>q. (q, if q = k then f (F q) else F q)) ks"
  by (induction ks) auto

lemma dd_update_absent:
  "k \<notin> set ks \<Longrightarrow>
   dd_update (map (\<lambda>q. (q, F q)) ks) k f = map (\<lambda>q. (q, F q)) ks @ [(k, f default_stats)]"
  by (induction ks) auto

lemma group_of_snoc:
  "group_of q (ps @ [m]) = (if metric_key m = q then group_of q ps @ [m] else group_of q ps)"
  by (simp add: group_of_def)

lemma group_of_absent: "q \<notin> metric_key ` set ps \<Longrightarrow> group_of q ps = []"
  by (auto simp: group_of_def filter_empty_conv)

lemma grouped_step:
  "dd_update (grouped ps) (metric_key m) (add_metric m) = grouped (ps @ [m])"
proof (cases "metric_key m \<in> set (map metric_key ps)")
  case True
  then have "dd_update (grouped ps) (metric_key m) (add_metric m) =
      map (\<lambda>q. (q, if q = metric_key m then add_metric m (stats_for (group_of q ps))
                     else stats_for (group_of q ps))) (first_seen (map metric_key ps))"
    unfolding grouped_def by (intro dd_update_present) simp_all
  also have "\<dots> = grouped (ps @ [m])"
    using True by (auto simp: grouped_def first_seen_snoc group_of_snoc add_metric_stats_for)
  finally show ?thesis .
next
  case False
  then have "dd_update (grouped ps) (metric_key m) (add_metric m) =
      grouped ps @ [(metric_key m, add_metric m default_stats)]"
    unfolding grouped_def by (intro dd_update_absent) simp
  also have "\<dots> = grouped (ps @ [m])"
    using False
    by (auto simp: grouped_def first_seen_snoc group_of_snoc add_metric_stats_for
        default_stats_for group_of_absent)
  finally show ?thesis .
qed


lemma group_metrics_grouped: "group_metrics ms (grouped ps) = grouped (ps @ ms)"
proof (induction ms arbitrary: ps)
  case Nil
  then show ?case by simp
next
  case (Cons m ms)
  have "group_metrics (m # ms) (grouped ps) = group_metrics ms (grouped (ps @ [m]))"
    using grouped_step [of ps m] by (simp add: metric_key_def)
  then show ?case using Cons [of "ps @ [m]"] by simp
qed

lemma group_metrics_closed: "group_metrics ms [] = grouped ms"
  using group_metrics_grouped [of ms "[]"] by (simp add: grouped_def first_seen_def)

lemma double_le: "double_0_95 \<le> double_0_99" "double_0_99 \<le> double_0_99"
  by (simp_all add: double_0_95_def double_0_99_def)

lemma percentile_ok:
  assumes "xs \<noteq> []" "m \<le> double_0_99"
  shows "percentile xs m = Inr (py_round (xs ! q_index xs m) 2)"
proof (cases "1 < length xs")
  case True
  then have "int_len_times (length xs) m < length xs"
    using assms int_len_times_less [of "length xs" m] by simp
  with True show ?thesis
    by (simp add: percentile_def q_index_def py_index_def try_bind_def)
next
  case False
  with assms(1) show ?thesis
    by (simp add: percentile_def q_index_def py_index_def try_bind_def)
qed

lemma py_min_ok: "xs \<noteq> [] \<Longrightarrow> py_min xs = Inr (foldl min (hd xs) (tl xs))"
  by (cases xs) (simp_all add: py_min_def)

lemma py_max_ok: "xs \<noteq> [] \<Longrightarrow> py_max xs = Inr (foldl max (hd xs) (tl xs))"
  by (cases xs) (simp_all add: py_max_def)

lemma py_div_ok: "xs \<noteq> [] \<Longrightarrow> py_div a (of_nat (length xs)) = Inr (round_double (a / of_nat (length xs)))"
  by (simp add: py_div_def)

lemma median_ok: "xs \<noteq> [] \<Longrightarrow> py_index xs (length xs div 2) = Inr (xs ! (length xs div 2))"
  by (simp add: py_index_def)

lemma latency_stats_ok:
  assumes "xs \<noteq> []"
  shows "latency_stats xs = Inr (latency_of xs)"
  using assms
  by (simp add: latency_stats_def latency_of_def try_bind_def py_div_ok py_min_ok py_max_ok
      median_ok percentile_ok double_le)

lemma processing_stats_ok:
  assumes "xs \<noteq> []"
  shows "processing_stats xs = Inr (processing_of xs)"
  using assms
  by (simp add: processing_stats_def processing_of_def try_bind_def py_div_ok py_min_ok py_max_ok)

lemma sort_nonempty: "xs \<noteq> [] \<Longrightarrow> sort xs \<noteq> []"
  by (metis length_sort length_0_conv)

lemma summarise_ok:
  assumes "g \<noteq> []"
  shows "summarise (stats_for g) = Inr (summary_of (stats_for g))"
proof -
  have a: "sort (latencies (stats_for g)) \<noteq> []"
    using assms by (intro sort_nonempty) (simp add: stats_for_def)
  have b: "sort (processing_times (stats_for g)) \<noteq> []"
    using assms by (intro sort_nonempty) (simp add: stats_for_def)
  have c: "count (stats_for g) \<noteq> 0" using assms by (simp add: stats_for_def)
  show ?thesis
    using c by (simp add: summarise_def summary_of_def try_bind_def latency_stats_ok [OF a]
        processing_stats_ok [OF b] py_div_def)
qed

lemma summarise_all_ok:
  assumes "\<forall>q \<in> set ks. G q \<noteq> []"
  shows "summarise_all (map (\<lambda>q. (q, stats_for (G q))) ks) acc =
         Inr (acc @ map (\<lambda>q. (q, summary_of (stats_for (G q)))) ks)"
  using assms
proof (induction ks arbitrary: acc)
  case Nil
  then show ?case by simp
next
  case (Cons k ks)
  then have g: "G k \<noteq> []" by simp
  then have c: "count (stats_for (G k)) \<noteq> 0" by (simp add: stats_for_def)
  from Cons have "summarise_all (map (\<lambda>q. (q, stats_for (G q))) ks) (acc @ [(k, summary_of (stats_for (G k)))]) =
         Inr ((acc @ [(k, summary_of (stats_for (G k)))]) @ map (\<lambda>q. (q, summary_of (stats_for (G q)))) ks)"
    by simp
  with c show ?case by (simp add: summarise_ok [OF g] try_bind_def)
qed

lemma group_of_nonempty: "q \<in> metric_key ` set ms \<Longrightarrow> group_of q ms \<noteq> []"
  by (auto simp: group_of_def filter_empty_conv)

lemma calculate_statistics_closed:
  "calculate_statistics ms =
     Inr (map (\<lambda>q. (q, summary_of (stats_for (group_of q ms)))) (first_seen (map metric_key ms)))"
proof -
  have "\<forall>q \<in> set (first_seen (map metric_key ms)). group_of q ms \<noteq> []"
    by (simp add: group_of_nonempty)
  then have "summarise_all (map (\<lambda>q. (q, stats_for (group_of q ms))) (first_seen (map metric_key ms))) [] =
         Inr ([] @ map (\<lambda>q. (q, summary_of (stats_for (group_of q ms)))) (first_seen (map metric_key ms)))"
    by (rule summarise_all_ok)
  then show ?thesis
    by (simp add: calculate_statistics_def group_metrics_closed grouped_def)
qed

lemma sum_indicator:
  "distinct ks \<Longrightarrow> k \<in> set ks \<Longrightarrow> sum_list (map (\<lambda>q. if k = q then 1 else 0) ks) = (1::nat)"
proof (induction ks)
  case Nil
  then show ?case by simp
next
  case (Cons a ks)
  show ?case
  proof (cases "k = a")
    case True
    with Cons.prems have "k \<notin> set ks" by simp
    then have "sum_list (map (\<lambda>q. if k = q then 1 else 0) ks) = (0::nat)"
      by (induction ks) auto
    with True show ?thesis by simp
  next
    case False
    with Cons show ?thesis by simp
  qed
qed

lemma group_sizes_sum:
  "distinct ks \<Longrightarrow> metric_key ` set ms \<subseteq> set ks \<Longrightarrow>
   sum_list (map (\<lambda>q. length (group_of q ms)) ks) = length ms"
proof (induction ms)
  case Nil
  then show ?case by (simp add: group_of_def)
next
  case (Cons m ms)
  have "sum_list (map (\<lambda>q. length (group_of q (m # ms))) ks) =
        sum_list (map (\<lambda>q. (if metric_key m = q then 1 else 0) + length (group_of q ms)) ks)"
    by (intro arg_cong [where f = sum_list] map_cong) (simp_all add: group_of_def)
  also have "\<dots> = sum_list (map (\<lambda>q. if metric_key m = q then 1 else 0) ks)
                   + sum_list (map (\<lambda>q. length (group_of q ms)) ks)"
    by (simp add: sum_list_addf)
  also have "\<dots> = 1 + length ms"
    using Cons sum_indicator [of ks "metric_key m"] by simp
  finally show ?case by simp
qed

lemma filter_split_length:
  "length (filter P xs) + length (filter (\<lambda>x. \<not> P x) xs) = length xs"
  by (induction xs) auto

text \<open>
  Claim C9. The grouping of \<^verbatim>\<open>calculate_statistics\<close> never raises and counts every
  metric in exactly one group: the keys of the summary are distinct and are the values
  of \<^verbatim>\<open>metric.get('queue_type', 'unknown')\<close>, so a metric without \<open>queue_type\<close> is
  counted under \<open>unknown\<close>; the counts of all groups add up to the number of metrics;
  in each group a metric is successful exactly when its status is the string
  \<open>successful\<close> and failed otherwise (an absent status included), the two counts add
  up to the count of the group, and the success rate is \<^verbatim>\<open>round(successful / count, 4)\<close>
  as Python computes it: the quotient rounded to the nearest double, then that double
  rounded to four decimals. The witness has a group with one success among 160 records:
  the quotient \<open>1/160 = 0.00625\<close> lies halfway between two candidates, the nearest double
  lies above it, and the rate is \<open>0.0063\<close>.
\<close>

theorem grouping_accounts_for_every_metric:
  "\<exists>summary. calculate_statistics ms = Inr summary
     \<and> distinct (map fst summary)
     \<and> set (map fst summary) = (\<lambda>m. get_or (queue_type m) ''unknown'') ` set ms
     \<and> sum_list (map (\<lambda>(q, s). s_count s) summary) = length ms
     \<and> (\<forall>(q, s) \<in> set summary.
           s_count s = length (filter (\<lambda>m. get_or (queue_type m) ''unknown'' = q) ms)
         \<and> successful_count s =
             length (filter (\<lambda>m. status m = Some ''successful'')
                      (filter (\<lambda>m. get_or (queue_type m) ''unknown'' = q) ms))
         \<and> failed_count s =
             length (filter (\<lambda>m. status m \<noteq> Some ''successful'')
                      (filter (\<lambda>m. get_or (queue_type m) ''unknown'' = q) ms))
         \<and> successful_count s + failed_count s = s_count s
         \<and> success_rate s = py_round (round_double (of_nat (successful_count s) / of_nat (s_count s))) 4)"
proof -
  define summary where
    "summary = map (\<lambda>q. (q, summary_of (stats_for (group_of q ms)))) (first_seen (map metric_key ms))"
  have c: "calculate_statistics ms = Inr summary"
    unfolding summary_def by (rule calculate_statistics_closed)
  have keys: "map fst summary = first_seen (map metric_key ms)"
    by (simp add: summary_def comp_def)
  have d: "distinct (map fst summary)" by (simp add: keys)
  have s: "set (map fst summary) = (\<lambda>m. get_or (queue_type m) ''unknown'') ` set ms"
    by (simp add: keys) (simp add: metric_key_def)
  have "sum_list (map (\<lambda>(q, s). s_count s) summary) =
        sum_list (map (\<lambda>q. length (group_of q ms)) (first_seen (map metric_key ms)))"
    by (simp add: summary_def comp_def summary_of_def stats_for_def)
  also have "\<dots> = length ms" by (intro group_sizes_sum) simp_all
  finally have t: "sum_list (map (\<lambda>(q, s). s_count s) summary) = length ms" .
  have e: "\<forall>(q, s) \<in> set summary.
           s_count s = length (filter (\<lambda>m. get_or (queue_type m) ''unknown'' = q) ms)
         \<and> successful_count s =
             length (filter (\<lambda>m. status m = Some ''successful'')
                      (filter (\<lambda>m. get_or (queue_type m) ''unknown'' = q) ms))
         \<and> failed_count s =
             length (filter (\<lambda>m. status m \<noteq> Some ''successful'')
                      (filter (\<lambda>m. get_or (queue_type m) ''unknown'' = q) ms))
         \<and> successful_count s + failed_count s = s_count s
         \<and> success_rate s = py_round (round_double (of_nat (successful_count s) / of_nat (s_count s))) 4"
    using filter_split_length [where P = "\<lambda>m. status m = Some ''successful''"]
    by (auto simp: summary_def summary_of_def stats_for_def group_of_def metric_key_def
        simp del: filter_filter)
  from c d s t e show ?thesis by blast
qed

theorem grouping_witness:
  "(\<exists>summary. calculate_statistics
       [stored_metric (Some ''sqs'') 12 (Some ''successful'') ''2024-05-01T10:00:00.000001Z'',
        stored_metric None 7 (Some ''successful'') ''2024-05-01T10:00:01.000001Z'',
        stored_metric (Some ''sqs'') 30 None ''2024-05-01T10:00:02.000001Z''] = Inr summary
     \<and> set (map fst summary) = {''sqs'', ''unknown''}
     \<and> sum_list (map (\<lambda>(q, s). s_count s) summary) = 3
     \<and> (\<forall>(q, s) \<in> set summary. successful_count s + failed_count s = s_count s))
   \<and> (\<exists>summary s. calculate_statistics one_in_160 = Inr summary
     \<and> (''sqs'', s) \<in> set summary
     \<and> s_count s = 160 \<and> successful_count s = 1 \<and> failed_count s = 159
     \<and> success_rate s = round_double (63 / 10000)
     \<and> success_rate s \<noteq> round_double (62 / 10000))"
proof -
  define ms where "ms =
       [stored_metric (Some ''sqs'') 12 (Some ''successful'') ''2024-05-01T10:00:00.000001Z'',
        stored_metric None 7 (Some ''successful'') ''2024-05-01T10:00:01.000001Z'',
        stored_metric (Some ''sqs'') 30 None ''2024-05-01T10:00:02.000001Z'']"
  obtain summary where
    c: "calculate_statistics ms = Inr summary" and
    k: "set (map fst summary) = (\<lambda>m. get_or (queue_type m) ''unknown'') ` set ms" and
    t: "sum_list (map (\<lambda>(q, s). s_count s) summary) = length ms" and
    e: "\<forall>(q, s) \<in> set summary. successful_count s + failed_count s = s_count s"
    using grouping_accounts_for_every_metric [of ms] by fast
  have "(\<lambda>m. get_or (queue_type m) ''unknown'') ` set ms = {''sqs'', ''unknown''}"
    by (simp add: ms_def stored_metric_def get_or_def insert_commute)
  with k have k': "set (map fst summary) = {''sqs'', ''unknown''}" by simp
  have t': "sum_list (map (\<lambda>(q, s). s_count s) summary) = 3"
    using t by (simp add: ms_def)
  from c k' t' e have first: "\<exists>summary. calculate_statistics
       [stored_metric (Some ''sqs'') 12 (Some ''successful'') ''2024-05-01T10:00:00.000001Z'',
        stored_metric None 7 (Some ''successful'') ''2024-05-01T10:00:01.000001Z'',
        stored_metric (Some ''sqs'') 30 None ''2024-05-01T10:00:02.000001Z''] = Inr summary
     \<and> set (map fst summary) = {''sqs'', ''unknown''}
     \<and> sum_list (map (\<lambda>(q, s). s_count s) summary) = 3
     \<and> (\<forall>(q, s) \<in> set summary. successful_count s + failed_count s = s_count s)"
    unfolding ms_def by blast
  obtain summary' where
    c2: "calculate_statistics one_in_160 = Inr summary'" and
    k2: "set (map fst summary') = (\<lambda>m. get_or (queue_type m) ''unknown'') ` set one_in_160" and
    e2: "\<forall>(q, s) \<in> set summary'.
           s_count s = length (filter (\<lambda>m. get_or (queue_type m) ''unknown'' = q) one_in_160)
         \<and> successful_count s =
             length (filter (\<lambda>m. status m = Some ''successful'')
                      (filter (\<lambda>m. get_or (queue_type m) ''unknown'' = q) one_in_160))
         \<and> failed_count s =
             length (filter (\<lambda>m. status m \<noteq> Some ''successful'')
                      (filter (\<lambda>m. get_or (queue_type m) ''unknown'' = q) one_in_160))
         \<and> success_rate s = py_round (round_double (of_nat (successful_count s) / of_nat (s_count s))) 4"
    using grouping_accounts_for_every_metric [of one_in_160] by fast
  have "(\<lambda>m. get_or (queue_type m) ''unknown'') ` set one_in_160 = {''sqs''}"
    by (simp add: one_in_160_def stored_metric_def get_or_def)
  with k2 have "''sqs'' \<in> fst ` set summary'" by simp
  then obtain s where m: "(''sqs'', s) \<in> set summary'" by force
  have g: "filter (\<lambda>m. get_or (queue_type m) ''unknown'' = ''sqs'') one_in_160 = one_in_160"
    by (simp add: one_in_160_def stored_metric_def get_or_def)
  have n: "length one_in_160 = 160" by (simp add: one_in_160_def)
  have n1: "length (filter (\<lambda>m. status m = Some ''successful'') one_in_160) = 1"
    by (simp add: one_in_160_def stored_metric_def)
  have n0: "length (filter (\<lambda>m. status m \<noteq> Some ''successful'') one_in_160) = 159"
    by (simp add: one_in_160_def stored_metric_def)
  from bspec [OF e2 m]
  have cnt: "s_count s = 160" and suc: "successful_count s = 1" and fl: "failed_count s = 159"
    and rate: "success_rate s = py_round (round_double (of_nat (successful_count s) / of_nat (s_count s))) 4"
    by (simp_all add: g n n1 n0 del: filter_filter)
  have "success_rate s = py_round (round_double (1 / 160)) 4"
    unfolding rate cnt suc by simp
  then have r63: "success_rate s = round_double (63 / 10000)" by (simp only: rate_160)
  then have r62: "success_rate s \<noteq> round_double (62 / 10000)" by (simp only: rate_160_not_62) simp
  from c2 m cnt suc fl r63 r62 have second: "\<exists>summary s. calculate_statistics one_in_160 = Inr summary
     \<and> (''sqs'', s) \<in> set summary
     \<and> s_count s = 160 \<and> successful_count s = 1 \<and> failed_count s = 159
     \<and> success_rate s = round_double (63 / 10000)
     \<and> success_rate s \<noteq> round_double (62 / 10000)"
    by blast
  from first second show ?thesis ..
qed

lemma foldl_min_least: "\<forall>y \<in> set ys. x \<le> y \<Longrightarrow> foldl min x ys = (x::rat)"
  by (induction ys) (simp_all add: min_def)

lemma sorted_min_first: "xs \<noteq> [] \<Longrightarrow> sorted xs \<Longrightarrow> foldl min (hd xs) (tl xs) = (xs ! 0 :: rat)"
  by (cases xs) (simp_all add: foldl_min_least)

lemma q_index_95: "xs \<noteq> [] \<Longrightarrow> length xs < 2 ^ 40 \<Longrightarrow> q_index xs double_0_95 = length xs * 95 div 100"
  using int_len_times_95 [of "length xs"]
  by (cases "1 < length xs") (auto simp: q_index_def not_less le_Suc_eq)

lemma q_index_99: "xs \<noteq> [] \<Longrightarrow> length xs < 2 ^ 40 \<Longrightarrow> q_index xs double_0_99 = length xs * 99 div 100"
  using int_len_times_99 [of "length xs"]
  by (cases "1 < length xs") (auto simp: q_index_def not_less le_Suc_eq)

lemma summary_member:
  assumes "calculate_statistics ms = Inr summary" "(q, s) \<in> set summary"
  shows "group_of q ms \<noteq> [] \<and> s = summary_of (stats_for (group_of q ms))"
proof -
  from assms(1) have "summary = map (\<lambda>q. (q, summary_of (stats_for (group_of q ms)))) (first_seen (map metric_key ms))"
    by (simp add: calculate_statistics_closed)
  with assms(2) show ?thesis by (auto simp: group_of_nonempty)
qed

text \<open>
  Claim C1. For every queue type \<open>q\<close> of the summary, let \<open>g\<close> be the latency values of
  the metrics of that queue type, sorted ascending, and \<open>L\<close> its length. Then \<open>g\<close> is
  not empty and the statistics are elements of \<open>g\<close>, each rounded to two decimals: the
  minimum is the element at position 0, the median the element at position
  \<open>floor(L / 2)\<close>, p95 the element at position \<open>floor(L * 95 / 100)\<close> and p99 the one
  at position \<open>floor(L * 99 / 100)\<close>; for \<open>L = 1\<close> all four are the single value.
  The bound on \<open>L\<close> keeps the double product \<^verbatim>\<open>len(latencies) * 0.95\<close> away from the
  lengths at which its rounding could reach the next integer. Rounding to two decimals
  leaves unchanged a value that a consumer has stored, the double nearest to a number
  with at most two decimals (\<open>py_round_two_decimals\<close>).
  The witness is the example of the specification: latencies 10, 20, 30, 40, 50 give
  median 30, p95 50 and p99 50, and the single latency 42 gives 42 four times.
\<close>

theorem percentile_positions:
  assumes "calculate_statistics ms = Inr summary"
    and "(q, s) \<in> set summary"
    and "g = sort (map (\<lambda>m. get_or (latency_ms m) 0)
                    (filter (\<lambda>m. get_or (queue_type m) ''unknown'' = q) ms))"
    and "length g < 2 ^ 40"
  shows "g \<noteq> [] \<and> sorted g
     \<and> min_ms (s_latency s) = py_round (g ! 0) 2
     \<and> median_ms (s_latency s) = py_round (g ! (length g div 2)) 2
     \<and> p95_ms (s_latency s) = py_round (g ! (length g * 95 div 100)) 2
     \<and> p99_ms (s_latency s) = py_round (g ! (length g * 99 div 100)) 2
     \<and> (length g = 1 \<longrightarrow>
           min_ms (s_latency s) = py_round (hd g) 2
         \<and> median_ms (s_latency s) = py_round (hd g) 2
         \<and> p95_ms (s_latency s) = py_round (hd g) 2
         \<and> p99_ms (s_latency s) = py_round (hd g) 2)"
proof -
  from summary_member [OF assms(1,2)]
  have ne: "group_of q ms \<noteq> []" and s: "s = summary_of (stats_for (group_of q ms))" by simp_all
  have g: "g = sort (latencies (stats_for (group_of q ms)))"
    by (simp add: assms(3) stats_for_def group_of_def metric_key_def)
  have lat: "s_latency s = latency_of g" by (simp add: s g summary_of_def)
  have gne: "g \<noteq> []" using ne by (simp add: g stats_for_def sort_nonempty)
  have srt: "sorted g" by (simp add: assms(3))
  have mn: "min_ms (s_latency s) = py_round (g ! 0) 2"
    by (simp add: lat latency_of_def sorted_min_first [OF gne srt])
  have med: "median_ms (s_latency s) = py_round (g ! (length g div 2)) 2"
    by (simp add: lat latency_of_def)
  have p95: "p95_ms (s_latency s) = py_round (g ! (length g * 95 div 100)) 2"
    by (simp add: lat latency_of_def q_index_95 [OF gne assms(4)])
  have p99: "p99_ms (s_latency s) = py_round (g ! (length g * 99 div 100)) 2"
    by (simp add: lat latency_of_def q_index_99 [OF gne assms(4)])
  have one: "length g = 1 \<longrightarrow>
           min_ms (s_latency s) = py_round (hd g) 2
         \<and> median_ms (s_latency s) = py_round (hd g) 2
         \<and> p95_ms (s_latency s) = py_round (hd g) 2
         \<and> p99_ms (s_latency s) = py_round (hd g) 2"
  proof
    assume l: "length g = 1"
    then have "g ! 0 = hd g" using gne by (simp add: hd_conv_nth)
    with l mn med p95 p99 show "min_ms (s_latency s) = py_round (hd g) 2
         \<and> median_ms (s_latency s) = py_round (hd g) 2
         \<and> p95_ms (s_latency s) = py_round (hd g) 2
         \<and> p99_ms (s_latency s) = py_round (hd g) 2" by simp
  qed
  from gne srt mn med p95 p99 one show ?thesis by blast
qed

theorem percentile_positions_witness:
  "(\<exists>s. calculate_statistics five_latencies = Inr [(''sqs'', s)]
        \<and> median_ms (s_latency s) = 30 \<and> p95_ms (s_latency s) = 50 \<and> p99_ms (s_latency s) = 50)
   \<and> (\<exists>s. calculate_statistics one_latency = Inr [(''rabbitmq'', s)]
        \<and> min_ms (s_latency s) = 42 \<and> median_ms (s_latency s) = 42
        \<and> p95_ms (s_latency s) = 42 \<and> p99_ms (s_latency s) = 42)"
proof -
  define s5 where "s5 = summary_of (stats_for five_latencies)"
  define s1 where "s1 = summary_of (stats_for one_latency)"
  have c5: "calculate_statistics five_latencies = Inr [(''sqs'', s5)]"
    by (simp add: calculate_statistics_closed s5_def first_seen_def group_of_def metric_key_def
        five_latencies_def stored_metric_def get_or_def)
  have c1: "calculate_statistics one_latency = Inr [(''rabbitmq'', s1)]"
    by (simp add: calculate_statistics_closed s1_def first_seen_def group_of_def metric_key_def
        one_latency_def stored_metric_def get_or_def)
  have g5: "[10, 20, 30, 40, 50] = sort (map (\<lambda>m. get_or (latency_ms m) 0)
                    (filter (\<lambda>m. get_or (queue_type m) ''unknown'' = ''sqs'') five_latencies))"
    by (simp add: five_latencies_def stored_metric_def get_or_def)
  have g1: "[42] = sort (map (\<lambda>m. get_or (latency_ms m) 0)
                    (filter (\<lambda>m. get_or (queue_type m) ''unknown'' = ''rabbitmq'') one_latency))"
    by (simp add: one_latency_def stored_metric_def get_or_def)
  have "median_ms (s_latency s5) = 30 \<and> p95_ms (s_latency s5) = 50 \<and> p99_ms (s_latency s5) = 50"
    using percentile_positions [OF c5 _ g5] by simp
  moreover have "min_ms (s_latency s1) = 42 \<and> median_ms (s_latency s1) = 42
        \<and> p95_ms (s_latency s1) = 42 \<and> p99_ms (s_latency s1) = 42"
    using percentile_positions [OF c1 _ g1] by simp
  ultimately show ?thesis using c5 c1 by blast
qed

section \<open>The handler of the comparison function\<close>

lemma three_objects_metrics:
  "get_all_metrics_from_s3 three_objects =
     [stored_metric (Some ''sqs'') 12 (Some ''successful'') ''2024-05-01T10:00:00.000001Z'',
      stored_metric (Some ''rabbitmq'') 7 (Some ''failed'') ''2024-05-01T10:00:02.000001Z'',
      stored_metric (Some ''sqs'') 30 (Some ''successful'') ''2024-05-01T10:00:01.000001Z'']"
  by (simp add: get_all_metrics_from_s3_def three_objects_def endswith_def)

text \<open>
  Claim C8. Whenever the fetched metric set is empty, the handler returns status 200 with
  \<open>total_messages = 0\<close>, \<open>statistics = {}\<close> and \<open>messages = []\<close> (and the message
  \<open>No metrics found\<close>); the response depends neither on the event nor on the clock, so
  two invocations on an empty set return the same response.
\<close>

theorem empty_metric_set_result:
  assumes "get_all_metrics_from_s3 bucket = []" and "get_all_metrics_from_s3 bucket' = []"
  shows "comparison_handler event bucket now = no_metrics_response
       \<and> statusCode no_metrics_response = 200
       \<and> b_total_messages (body no_metrics_response) = Some 0
       \<and> b_statistics (body no_metrics_response) = Some []
       \<and> b_messages (body no_metrics_response) = Some []
       \<and> comparison_handler event' bucket' now' = comparison_handler event bucket now"
  using assms
  by (simp add: comparison_handler_def comparison_try_def no_metrics_response_def empty_body_def)

theorem empty_metric_set_witness:
  "comparison_handler \<lparr>queryStringParameters = None\<rparr> (Some [(''readme.txt'', None), (''sqs/x.json'', None)])
      ''2024-05-01T10:00:05.000001Z'' = no_metrics_response
   \<and> comparison_handler \<lparr>queryStringParameters = Some [(''details'', ''true'')]\<rparr> None
      ''2024-05-01T10:00:09.000001Z'' = no_metrics_response"
proof -
  have a: "get_all_metrics_from_s3 (Some [(''readme.txt'', None), (''sqs/x.json'', None)]) = []"
    by (simp add: get_all_metrics_from_s3_def endswith_def)
  have b: "get_all_metrics_from_s3 None = []"
    by (simp add: get_all_metrics_from_s3_def)
  show ?thesis
    using empty_metric_set_result [OF a b, of "\<lparr>queryStringParameters = None\<rparr>"
        "''2024-05-01T10:00:05.000001Z''" "\<lparr>queryStringParameters = Some [(''details'', ''true'')]\<rparr>"
        "''2024-05-01T10:00:09.000001Z''"]
    by simp
qed

text \<open>
  Claim C10, as stated, fails on an empty metric set: the handler returns the empty
  result with status 200 before it reads \<open>limit\<close>.
\<close>

theorem unparseable_limit_empty_set:
  "py_int ''abc'' = Inl ValueError
   \<and> statusCode (comparison_handler \<lparr>queryStringParameters = Some [(''limit'', ''abc'')]\<rparr> (Some [])
        ''2024-05-01T10:00:05.000001Z'') = 200"
  by (simp add: py_int_def strip_def is_space_def digit_val_def comparison_handler_def
      comparison_try_def get_all_metrics_from_s3_def)

text \<open>
  Claim C10, amended. When the \<open>limit\<close> parameter is present and \<^verbatim>\<open>int\<close> raises on it,
  the handler returns the internal-error response with status 500 if the fetched metric
  set is not empty, and the empty result with status 200 if it is empty.
\<close>

theorem unparseable_limit:
  assumes "map_of (get_or (queryStringParameters event) []) ''limit'' = Some s"
    and "py_int s = Inl e"
  shows "comparison_handler event bucket now =
           (if get_all_metrics_from_s3 bucket = [] then no_metrics_response else internal_error e)
       \<and> statusCode (internal_error e) = 500"
  using assms
  by (simp add: comparison_handler_def comparison_try_def no_metrics_response_def
      calculate_statistics_closed try_bind_def parse_limit_def Let_def internal_error_def)

theorem unparseable_limit_witness:
  "comparison_handler \<lparr>queryStringParameters = Some [(''details'', ''true''), (''limit'', ''ten'')]\<rparr>
      three_objects ''2024-05-01T10:00:05.000001Z'' = internal_error ValueError"
proof -
  have a: "map_of (get_or (queryStringParameters \<lparr>queryStringParameters = Some [(''details'', ''true''), (''limit'', ''ten'')]\<rparr>) [])
             ''limit'' = Some ''ten''"
    by (simp add: get_or_def)
  have b: "py_int ''ten'' = Inl ValueError"
    by (simp add: py_int_def strip_def is_space_def digit_val_def)
  show ?thesis
    using unparseable_limit [OF a b, of three_objects "''2024-05-01T10:00:05.000001Z''"]
    by (simp add: three_objects_metrics)
qed







section \<open>Timestamps: printing and parsing\<close>

lemma lt10_cases: "d < 10 \<Longrightarrow> d = 0 \<or> d = 1 \<or> d = 2 \<or> d = 3 \<or> d = 4 \<or> d = 5 \<or> d = 6 \<or> d = 7 \<or> d = 8 \<or> d = (9::nat)"
  by arith

lemma digit_val_digit_char: "d < 10 \<Longrightarrow> digit_val (digit_char d) = Some d"
  by (drule lt10_cases) (auto simp: digit_val_def digit_char_def)

lemma digit_char_not_sep:
  assumes "d < 10"
  shows "digit_char d \<noteq> CHR ''Z''" "digit_char d \<noteq> CHR ''-''" "digit_char d \<noteq> CHR ''+''"
    "digit_char d \<noteq> CHR '':''" "digit_char d \<noteq> CHR ''.''"
  using lt10_cases [OF assms] by (auto simp: digit_char_def)

lemma mod10_lt: "n mod 10 < (10::nat)" by simp

lemmas dc_simps = digit_val_digit_char [OF mod10_lt] digit_char_not_sep [OF mod10_lt]

lemma nat_of_digits_pad2_raw:
  "nat_of_digits (pad2 n) 0 = Some (10 * (n div 10 mod 10) + n mod 10)"
  by (simp add: pad2_def dc_simps)

lemma nat_of_digits_pad4_raw:
  "nat_of_digits (pad4 n) 0 =
     Some (10 * (10 * (10 * (n div 1000 mod 10) + n div 100 mod 10) + n div 10 mod 10) + n mod 10)"
  by (simp add: pad4_def dc_simps)

lemma nat_of_digits_pad6_raw:
  "nat_of_digits (pad6 n) 0 =
     Some (10 * (10 * (10 * (10 * (10 * (n div 100000 mod 10) + n div 10000 mod 10)
             + n div 1000 mod 10) + n div 100 mod 10) + n div 10 mod 10) + n mod 10)"
  by (simp add: pad6_def dc_simps)

lemma digits_step: "10 * (n div 10) + n mod 10 = (n::nat)"
  by simp

lemma nat_of_digits_pad2: "n < 100 \<Longrightarrow> nat_of_digits (pad2 n) 0 = Some n"
  unfolding nat_of_digits_pad2_raw by simp

lemma nat_of_digits_pad4:
  assumes "n < 10000"
  shows "nat_of_digits (pad4 n) 0 = Some n"
proof -
  define a where "a = n div 10"
  define b where "b = a div 10"
  define c where "c = b div 10"
  have e: "n div 10 = a" "n div 100 = b" "n div 1000 = c"
    using div_mult2_eq [of n 10 10] div_mult2_eq [of n 100 10]
    by (simp_all add: a_def b_def c_def)
  have "c < 10" using assms e(3) by (simp add: less_mult_imp_div_less)
  then have "c mod 10 = c" by simp
  moreover have "10 * c + b mod 10 = b" unfolding c_def by (rule digits_step)
  moreover have "10 * b + a mod 10 = a" unfolding b_def by (rule digits_step)
  moreover have "10 * a + n mod 10 = n" unfolding a_def by (rule digits_step)
  ultimately have "10 * (10 * (10 * (c mod 10) + b mod 10) + a mod 10) + n mod 10 = n"
    by simp
  then show ?thesis by (simp only: nat_of_digits_pad4_raw e)
qed

lemma nat_of_digits_pad6:
  assumes "n < 1000000"
  shows "nat_of_digits (pad6 n) 0 = Some n"
proof -
  define a where "a = n div 10"
  define b where "b = a div 10"
  define c where "c = b div 10"
  define d where "d = c div 10"
  define f where "f = d div 10"
  have e: "n div 10 = a" "n div 100 = b" "n div 1000 = c" "n div 10000 = d" "n div 100000 = f"
    using div_mult2_eq [of n 10 10] div_mult2_eq [of n 100 10] div_mult2_eq [of n 1000 10]
      div_mult2_eq [of n 10000 10]
    by (simp_all add: a_def b_def c_def d_def f_def)
  have "f < 10" using assms e(5) by (simp add: less_mult_imp_div_less)
  then have "f mod 10 = f" by simp
  moreover have "10 * f + d mod 10 = d" unfolding f_def by (rule digits_step)
  moreover have "10 * d + c mod 10 = c" unfolding d_def by (rule digits_step)
  moreover have "10 * c + b mod 10 = b" unfolding c_def by (rule digits_step)
  moreover have "10 * b + a mod 10 = a" unfolding b_def by (rule digits_step)
  moreover have "10 * a + n mod 10 = n" unfolding a_def by (rule digits_step)
  ultimately have "10 * (10 * (10 * (10 * (10 * (f mod 10) + d mod 10)
             + c mod 10) + b mod 10) + a mod 10) + n mod 10 = n"
    by simp
  then show ?thesis by (simp only: nat_of_digits_pad6_raw e)
qed


lemma pad_digits:
  "\<forall>c \<in> set (pad2 n). c \<noteq> CHR ''Z'' \<and> c \<noteq> CHR ''-'' \<and> c \<noteq> CHR ''+''"
  "\<forall>c \<in> set (pad4 n). c \<noteq> CHR ''Z'' \<and> c \<noteq> CHR ''-'' \<and> c \<noteq> CHR ''+''"
  "\<forall>c \<in> set (pad6 n). c \<noteq> CHR ''Z'' \<and> c \<noteq> CHR ''-'' \<and> c \<noteq> CHR ''+''"
  by (simp_all add: pad2_def pad4_def pad6_def dc_simps)

lemma pad_shape:
  "\<exists>a b. pad2 n = [a, b]"
  "\<exists>a b c d. pad4 n = [a, b, c, d]"
  "\<exists>a b c d e f. pad6 n = [a, b, c, d, e, f]"
  by (simp_all add: pad2_def pad4_def pad6_def)

lemma days_in_month_le: "1 \<le> m \<Longrightarrow> m \<le> 12 \<Longrightarrow> days_in_month y m \<le> 31"
proof -
  assume "1 \<le> m" "m \<le> 12"
  then have "m = 1 \<or> m = 2 \<or> m = 3 \<or> m = 4 \<or> m = 5 \<or> m = 6 \<or> m = 7 \<or> m = 8
      \<or> m = 9 \<or> m = 10 \<or> m = 11 \<or> m = 12" by arith
  then show ?thesis by (auto simp: days_in_month_def)
qed

lemma fromisoformat_utc_stamp:
  assumes v: "valid_fields d" and n: "dt_utcoffset d = None"
  shows "fromisoformat (replace_Z (utc_stamp d)) = Inr (d\<lparr>dt_utcoffset := Some 0\<rparr>)"
proof -
  obtain y1 y2 y3 y4 where Y: "pad4 (dt_year d) = [y1, y2, y3, y4]" using pad_shape(2) by blast
  obtain m1 m2 where M: "pad2 (dt_month d) = [m1, m2]" using pad_shape(1) by blast
  obtain d1 d2 where D: "pad2 (dt_day d) = [d1, d2]" using pad_shape(1) by blast
  obtain h1 h2 where H: "pad2 (dt_hour d) = [h1, h2]" using pad_shape(1) by blast
  obtain i1 i2 where I: "pad2 (dt_minute d) = [i1, i2]" using pad_shape(1) by blast
  obtain s1 s2 where S: "pad2 (dt_second d) = [s1, s2]" using pad_shape(1) by blast
  obtain u1 u2 u3 u4 u5 u6 where U: "pad6 (dt_microsecond d) = [u1, u2, u3, u4, u5, u6]"
    using pad_shape(3) by blast
  from v have b: "dt_year d < 10000" "dt_month d < 100" "dt_day d < 100" "dt_hour d < 100"
    "dt_minute d < 100" "dt_second d < 100" "dt_microsecond d < 1000000"
    using days_in_month_le [of "dt_month d" "dt_year d"] by (auto simp: valid_fields_def)
  have pY: "nat_of_digits [y1, y2, y3, y4] 0 = Some (dt_year d)"
    using nat_of_digits_pad4 [OF b(1)] by (simp only: Y)
  have pM: "nat_of_digits [m1, m2] 0 = Some (dt_month d)"
    using nat_of_digits_pad2 [OF b(2)] by (simp only: M)
  have pD: "nat_of_digits [d1, d2] 0 = Some (dt_day d)"
    using nat_of_digits_pad2 [OF b(3)] by (simp only: D)
  have pH: "nat_of_digits [h1, h2] 0 = Some (dt_hour d)"
    using nat_of_digits_pad2 [OF b(4)] by (simp only: H)
  have pI: "nat_of_digits [i1, i2] 0 = Some (dt_minute d)"
    using nat_of_digits_pad2 [OF b(5)] by (simp only: I)
  have pS: "nat_of_digits [s1, s2] 0 = Some (dt_second d)"
    using nat_of_digits_pad2 [OF b(6)] by (simp only: S)
  have pU: "nat_of_digits [u1, u2, u3, u4, u5, u6] 0 = Some (dt_microsecond d)"
    using nat_of_digits_pad6 [OF b(7)] by (simp only: U)
  have zero: "nat_of_digits ''00'' 0 = Some 0" by (simp add: digit_val_def)
  have cY: "y1 \<noteq> CHR ''Z''" "y2 \<noteq> CHR ''Z''" "y3 \<noteq> CHR ''Z''" "y4 \<noteq> CHR ''Z''"
    using pad_digits(2) [of "dt_year d"] by (simp_all add: Y)
  have cM: "m1 \<noteq> CHR ''Z''" "m2 \<noteq> CHR ''Z''"
    using pad_digits(1) [of "dt_month d"] by (simp_all add: M)
  have cD: "d1 \<noteq> CHR ''Z''" "d2 \<noteq> CHR ''Z''"
    using pad_digits(1) [of "dt_day d"] by (simp_all add: D)
  have cH: "h1 \<noteq> CHR ''Z''" "h2 \<noteq> CHR ''Z''" "h1 \<noteq> CHR ''-''" "h2 \<noteq> CHR ''-''"
    "h1 \<noteq> CHR ''+''" "h2 \<noteq> CHR ''+''"
    using pad_digits(1) [of "dt_hour d"] by (simp_all add: H)
  have cI: "i1 \<noteq> CHR ''Z''" "i2 \<noteq> CHR ''Z''" "i1 \<noteq> CHR ''-''" "i2 \<noteq> CHR ''-''"
    "i1 \<noteq> CHR ''+''" "i2 \<noteq> CHR ''+''"
    using pad_digits(1) [of "dt_minute d"] by (simp_all add: I)
  have cS: "s1 \<noteq> CHR ''Z''" "s2 \<noteq> CHR ''Z''" "s1 \<noteq> CHR ''-''" "s2 \<noteq> CHR ''-''"
    "s1 \<noteq> CHR ''+''" "s2 \<noteq> CHR ''+''"
    using pad_digits(1) [of "dt_second d"] by (simp_all add: S)
  have cU: "u1 \<noteq> CHR ''Z''" "u2 \<noteq> CHR ''Z''" "u3 \<noteq> CHR ''Z''" "u4 \<noteq> CHR ''Z''"
    "u5 \<noteq> CHR ''Z''" "u6 \<noteq> CHR ''Z''"
    "u1 \<noteq> CHR ''-''" "u2 \<noteq> CHR ''-''" "u3 \<noteq> CHR ''-''" "u4 \<noteq> CHR ''-''"
    "u5 \<noteq> CHR ''-''" "u6 \<noteq> CHR ''-''"
    "u1 \<noteq> CHR ''+''" "u2 \<noteq> CHR ''+''" "u3 \<noteq> CHR ''+''" "u4 \<noteq> CHR ''+''"
    "u5 \<noteq> CHR ''+''" "u6 \<noteq> CHR ''+''"
    using pad_digits(3) [of "dt_microsecond d"] by (simp_all add: U)
  note chars = cY cM cD cH cI cS cU
  note parses = pY pM pD pH pI pS pU zero
  have rec: "\<lparr>dt_year = dt_year d, dt_month = dt_month d, dt_day = dt_day d, dt_hour = dt_hour d,
       dt_minute = dt_minute d, dt_second = dt_second d, dt_microsecond = dt_microsecond d,
       dt_utcoffset = Some 0\<rparr> = d\<lparr>dt_utcoffset := Some 0\<rparr>"
    by simp
  have vf: "valid_fields (d\<lparr>dt_utcoffset := Some 0\<rparr>)" using v by (simp add: valid_fields_def)
  show ?thesis
  proof (cases "dt_microsecond d = 0")
    case True
    have str: "replace_Z (utc_stamp d) =
        [y1, y2, y3, y4, CHR ''-'', m1, m2, CHR ''-'', d1, d2, CHR ''T'',
         h1, h2, CHR '':'', i1, i2, CHR '':'', s1, s2] @ ''+00:00''"
      using True by (simp add: utc_stamp_def isoformat_def replace_Z_def Y M D H I S chars)
    have rec0: "\<lparr>dt_year = dt_year d, dt_month = dt_month d, dt_day = dt_day d, dt_hour = dt_hour d,
       dt_minute = dt_minute d, dt_second = dt_second d, dt_microsecond = 0,
       dt_utcoffset = Some 0\<rparr> = d\<lparr>dt_utcoffset := Some 0\<rparr>"
      using True by simp
    show ?thesis
      unfolding str
      by (simp add: fromisoformat_def parse_isoformat_date_def parse_isoformat_time_def
          parse_hh_mm_ss_ff_def parse_tz_def int_field_def try_bind_def parses chars rec0 vf Let_def
          del: nat_of_digits.simps)
  next
    case False
    have str: "replace_Z (utc_stamp d) =
        [y1, y2, y3, y4, CHR ''-'', m1, m2, CHR ''-'', d1, d2, CHR ''T'',
         h1, h2, CHR '':'', i1, i2, CHR '':'', s1, s2, CHR ''.'', u1, u2, u3, u4, u5, u6] @ ''+00:00''"
      using False by (simp add: utc_stamp_def isoformat_def replace_Z_def Y M D H I S U chars)
    show ?thesis
      unfolding str
      by (simp add: fromisoformat_def parse_isoformat_date_def parse_isoformat_time_def
          parse_hh_mm_ss_ff_def parse_tz_def parse_fraction_def int_field_def try_bind_def parses chars rec vf Let_def
          del: nat_of_digits.simps)
  qed
qed

section \<open>Latency\<close>

lemma calculate_latency_parsed:
  assumes "parse_timestamp s = Inr a" "parse_timestamp r = Inr b"
    and "dt_utcoffset a = Some oa" "dt_utcoffset b = Some ob"
  shows "calculate_latency s r = ms_of_us ((wall_us b - ob) - (wall_us a - oa))"
  using assms
  by (simp add: calculate_latency_def latency_try_def try_bind_def dt_sub_def ms_of_us_def)

lemma calculate_latency_malformed:
  assumes "parse_timestamp s = Inl e \<or> parse_timestamp r = Inl e"
  shows "calculate_latency s r = 0"
  using assms by (auto simp: calculate_latency_def latency_try_def try_bind_def split: sum.splits)

lemma parse_utc_stamp:
  assumes "valid_fields d" "dt_utcoffset d = None"
  shows "parse_timestamp (Some (utc_stamp d)) = Inr (d\<lparr>dt_utcoffset := Some 0\<rparr>)"
  using fromisoformat_utc_stamp [OF assms] by (simp add: parse_timestamp_def)

lemma wall_us_update [simp]: "wall_us (d\<lparr>dt_utcoffset := z\<rparr>) = wall_us d"
  by (simp add: wall_us_def)

lemma calculate_latency_stamps:
  assumes "valid_fields a" "dt_utcoffset a = None" "valid_fields b" "dt_utcoffset b = None"
  shows "calculate_latency (Some (utc_stamp a)) (Some (utc_stamp b)) = ms_of_us (wall_us b - wall_us a)"
  using calculate_latency_parsed [OF parse_utc_stamp [OF assms(1,2)] parse_utc_stamp [OF assms(3,4)], of 0 0]
  by simp

lemma calculate_latency_negative:
  assumes "calculate_latency s r < 0"
  shows "\<exists>a b us. parse_timestamp s = Inr a \<and> parse_timestamp r = Inr b \<and> dt_sub b a = Inr us \<and> us < 0"
proof -
  from assms obtain v where v: "latency_try s r = Inr v" "v < 0"
    by (auto simp: calculate_latency_def split: sum.splits)
  then obtain a b us where p: "parse_timestamp s = Inr a" "parse_timestamp r = Inr b"
      "dt_sub b a = Inr us" and e: "v = ms_of_us us"
    by (auto simp: latency_try_def try_bind_def ms_of_us_def split: sum.splits)
  have "us < 0"
  proof (rule ccontr)
    assume "\<not> us < 0"
    then have "0 \<le> ms_of_us us" by (intro ms_of_us_sign) simp
    with v(2) e show False by simp
  qed
  with p show ?thesis by blast
qed

lemma sqs_metrics_latency:
  assumes "sqs_metrics record env = Inr m"
  shows "latency_ms m = Some (py_round (calculate_latency (timestamp_sent m) (timestamp_received m)) 2)"
    "timestamp_received m = Some (utc_stamp (now_received env))"
  using assms
  by (auto simp: sqs_metrics_def Let_def simulate_processing_def split: option.splits json_text.splits)

lemma rabbitmq_metrics_latency:
  assumes "rabbitmq_metrics frame env = Inr m"
  shows "latency_ms m = Some (py_round (calculate_latency (timestamp_sent m) (timestamp_received m)) 2)"
    "timestamp_received m = Some (utc_stamp (now_received env))"
  using assms
  by (auto simp: rabbitmq_metrics_def Let_def simulate_processing_def split: json_text.splits)

lemma clock_valid: "s < 60 \<Longrightarrow> us < 1000000 \<Longrightarrow> valid_fields (clock s us)" "dt_utcoffset (clock s us) = None"
  by (simp_all add: clock_def valid_fields_def days_in_month_def)

lemma stamp_examples:
  "utc_stamp (clock 0 0) = ''2024-05-01T10:00:00Z''"
  "utc_stamp (clock 2 0) = ''2024-05-01T10:00:02Z''"
  "utc_stamp (clock 0 250000) = ''2024-05-01T10:00:00.250000Z''"
  "utc_stamp (clock 3 1000) = ''2024-05-01T10:00:03.001000Z''"
  "utc_stamp (clock 0 5) = ''2024-05-01T10:00:00.000005Z''"
  by (simp_all add: utc_stamp_def isoformat_def clock_def pad2_def pad4_def pad6_def digit_char_def)

lemma wall_us_clock: "wall_us (clock s us) = wall_us (clock 0 0) + int s * 1000000 + int us"
  by (simp add: wall_us_def clock_def algebra_simps)

lemma latency_examples:
  "calculate_latency (Some ''2024-05-01T10:00:02Z'') (Some (utc_stamp (clock 0 0))) = - 2000"
  "calculate_latency (Some ''2024-05-01T10:00:00Z'') (Some (utc_stamp (clock 0 250000))) = 250"
proof -
  have "calculate_latency (Some ''2024-05-01T10:00:02Z'') (Some (utc_stamp (clock 0 0))) =
        calculate_latency (Some (utc_stamp (clock 2 0))) (Some (utc_stamp (clock 0 0)))"
    by (simp only: stamp_examples)
  also have "\<dots> = ms_of_us (wall_us (clock 0 0) - wall_us (clock 2 0))"
    by (rule calculate_latency_stamps) (simp_all add: clock_valid)
  also have "wall_us (clock 0 0) - wall_us (clock 2 0) = (- 2) * 1000000"
    by (subst wall_us_clock [of 2 0]) simp
  also have "ms_of_us ((- 2) * 1000000) = of_int ((- 2) * 1000)"
    by (rule ms_of_us_whole_seconds) simp
  finally show "calculate_latency (Some ''2024-05-01T10:00:02Z'') (Some (utc_stamp (clock 0 0))) = - 2000"
    by simp
  have "calculate_latency (Some ''2024-05-01T10:00:00Z'') (Some (utc_stamp (clock 0 250000))) =
        calculate_latency (Some (utc_stamp (clock 0 0))) (Some (utc_stamp (clock 0 250000)))"
    by (simp only: stamp_examples)
  also have "\<dots> = ms_of_us (wall_us (clock 0 250000) - wall_us (clock 0 0))"
    by (rule calculate_latency_stamps) (simp_all add: clock_valid)
  also have "wall_us (clock 0 250000) - wall_us (clock 0 0) = 250000"
    by (subst wall_us_clock [of 0 250000]) simp
  also have "ms_of_us 250000 = 250" by (rule ms_of_us_quarter)
  finally show "calculate_latency (Some ''2024-05-01T10:00:00Z'') (Some (utc_stamp (clock 0 250000))) = 250" .
qed

lemma parse_examples:
  "parse_timestamp (Some ''yesterday'') = Inl ValueError"
  "parse_timestamp None = Inl AttributeError"
  by (simp_all add: parse_timestamp_def replace_Z_def fromisoformat_def parse_isoformat_date_def
      int_field_def try_bind_def digit_val_def)

lemma stored_latency_negative:
  assumes "us \<le> - 10" "\<bar>us\<bar> < 2 ^ 50"
  shows "py_round (ms_of_us us) 2 < 0"
proof -
  have p53: "(2::rat) ^ 53 = 9007199254740992" by simp
  obtain k where r: "py_round (ms_of_us us) 2 = round_double (of_int k / 100)"
    and n: "\<bar>of_int k / 100 - of_int us / 1000\<bar> \<le> (1 / 200 :: rat)"
    using stored_hundredth [OF assms(2)] by blast
  have "(of_int us :: rat) \<le> of_int (- 10)" using assms(1) by (simp only: of_int_le_iff)
  then have u: "(of_int us :: rat) \<le> - 10" by simp
  from n u have neg: "(of_int k :: rat) / 100 < 0" by linarith
  then have "k \<noteq> 0" by auto
  then have "power_int 2 (- 1022) \<le> \<bar>(of_int k :: rat) / 100\<bar>" by (rule normal_hundredth)
  then have "\<bar>round_double (of_int k / 100) - of_int k / 100\<bar> \<le> \<bar>(of_int k :: rat) / 100\<bar> / 2 ^ 53"
    by (rule round_double_relative)
  with neg have "round_double (of_int k / 100) < 0" unfolding p53 by linarith
  with r show ?thesis by simp
qed

text \<open>
  Claim C3, as stated, fails: neither consumer clamps the latency. A message whose
  \<open>timestamp_sent\<close> is two seconds later than the clock reading of the consumer gets
  \<open>latency_ms = -2000\<close>, in the SQS consumer and in the RabbitMQ consumer.
\<close>

theorem latency_negative_when_sent_later:
  "map_sum id latency_ms
     (sqs_metrics (sqs_example ''m-1'' (Some ''2024-05-01T10:00:02Z'')) (example_env 0 0 True))
     = Inr (Some (- 2000))
   \<and> map_sum id latency_ms
     (rabbitmq_metrics \<lparr>d_delivery_tag = 1, d_body = ride_message ''m-1'' (Some ''2024-05-01T10:00:02Z'')\<rparr>
        (example_env 0 0 True))
     = Inr (Some (- 2000))"
  by (simp add: sqs_metrics_def rabbitmq_metrics_def sqs_example_def ride_message_def example_env_def
      simulate_processing_def latency_examples Let_def)

text \<open>
  Claim C3, amended. Every metric record built by either consumer has a \<open>latency_ms\<close>.
  It is negative only if both timestamps parse and \<open>timestamp_sent\<close> is later than
  \<open>timestamp_received\<close>. It is 0 when \<open>timestamp_sent\<close> does not parse. When
  \<open>timestamp_sent\<close> is a clock reading in the format of the producer, \<open>latency_ms\<close> is
  non-negative if that reading is not later than the clock reading of the consumer, and
  negative if it is later by at least 10 microseconds (and less than \<open>2^50\<close>
  microseconds, about 35 years). A \<open>timestamp_sent\<close> that is later by a few
  microseconds only can give a \<open>latency_ms\<close> that rounds to 0.
\<close>

theorem latency_nonnegative_unless_sent_later:
  assumes "sqs_metrics record env = Inr m \<or> rabbitmq_metrics frame env = Inr m"
  shows "\<exists>v. latency_ms m = Some v
     \<and> (v < 0 \<longrightarrow> (\<exists>a b us. parse_timestamp (timestamp_sent m) = Inr a
                         \<and> parse_timestamp (timestamp_received m) = Inr b
                         \<and> dt_sub b a = Inr us \<and> us < 0))
     \<and> ((\<exists>e. parse_timestamp (timestamp_sent m) = Inl e) \<longrightarrow> v = 0)
     \<and> (\<forall>a. timestamp_sent m = Some (utc_stamp a) \<and> valid_fields a \<and> dt_utcoffset a = None
             \<and> valid_fields (now_received env) \<and> dt_utcoffset (now_received env) = None
             \<and> wall_us a \<le> wall_us (now_received env) \<longrightarrow> 0 \<le> v)
     \<and> (\<forall>a. timestamp_sent m = Some (utc_stamp a) \<and> valid_fields a \<and> dt_utcoffset a = None
             \<and> valid_fields (now_received env) \<and> dt_utcoffset (now_received env) = None
             \<and> wall_us (now_received env) + 10 \<le> wall_us a
             \<and> wall_us a < wall_us (now_received env) + 2 ^ 50 \<longrightarrow> v < 0)"
proof -
  define v where "v = py_round (calculate_latency (timestamp_sent m) (timestamp_received m)) 2"
  have l: "latency_ms m = Some v" and r: "timestamp_received m = Some (utc_stamp (now_received env))"
    using assms sqs_metrics_latency rabbitmq_metrics_latency unfolding v_def by blast+
  have neg: "v < 0 \<longrightarrow> (\<exists>a b us. parse_timestamp (timestamp_sent m) = Inr a
                         \<and> parse_timestamp (timestamp_received m) = Inr b
                         \<and> dt_sub b a = Inr us \<and> us < 0)"
  proof
    assume "v < 0"
    then have "calculate_latency (timestamp_sent m) (timestamp_received m) < 0"
      unfolding v_def using py_round_nonneg [of "calculate_latency (timestamp_sent m) (timestamp_received m)" 2]
      by linarith
    then show "\<exists>a b us. parse_timestamp (timestamp_sent m) = Inr a
                         \<and> parse_timestamp (timestamp_received m) = Inr b
                         \<and> dt_sub b a = Inr us \<and> us < 0"
      by (rule calculate_latency_negative)
  qed
  have mal: "(\<exists>e. parse_timestamp (timestamp_sent m) = Inl e) \<longrightarrow> v = 0"
  proof
    assume "\<exists>e. parse_timestamp (timestamp_sent m) = Inl e"
    then obtain e where "parse_timestamp (timestamp_sent m) = Inl e" ..
    then have "parse_timestamp (timestamp_sent m) = Inl e \<or> parse_timestamp (timestamp_received m) = Inl e"
      by simp
    then have "calculate_latency (timestamp_sent m) (timestamp_received m) = 0"
      by (rule calculate_latency_malformed)
    then show "v = 0" by (simp add: v_def)
  qed
  have ok: "\<forall>a. timestamp_sent m = Some (utc_stamp a) \<and> valid_fields a \<and> dt_utcoffset a = None
             \<and> valid_fields (now_received env) \<and> dt_utcoffset (now_received env) = None
             \<and> wall_us a \<le> wall_us (now_received env) \<longrightarrow> 0 \<le> v"
  proof (intro allI impI)
    fix a
    assume h: "timestamp_sent m = Some (utc_stamp a) \<and> valid_fields a \<and> dt_utcoffset a = None
             \<and> valid_fields (now_received env) \<and> dt_utcoffset (now_received env) = None
             \<and> wall_us a \<le> wall_us (now_received env)"
    then have "calculate_latency (timestamp_sent m) (timestamp_received m) =
        ms_of_us (wall_us (now_received env) - wall_us a)"
      using calculate_latency_stamps [of a "now_received env"] by (simp add: r)
    moreover from h have "0 \<le> ms_of_us (wall_us (now_received env) - wall_us a)"
      by (intro ms_of_us_sign) simp
    ultimately have "0 \<le> calculate_latency (timestamp_sent m) (timestamp_received m)" by simp
    then show "0 \<le> v" unfolding v_def by (rule py_round_nonneg)
  qed
  have late: "\<forall>a. timestamp_sent m = Some (utc_stamp a) \<and> valid_fields a \<and> dt_utcoffset a = None
             \<and> valid_fields (now_received env) \<and> dt_utcoffset (now_received env) = None
             \<and> wall_us (now_received env) + 10 \<le> wall_us a
             \<and> wall_us a < wall_us (now_received env) + 2 ^ 50 \<longrightarrow> v < 0"
  proof (intro allI impI)
    fix a
    assume h: "timestamp_sent m = Some (utc_stamp a) \<and> valid_fields a \<and> dt_utcoffset a = None
             \<and> valid_fields (now_received env) \<and> dt_utcoffset (now_received env) = None
             \<and> wall_us (now_received env) + 10 \<le> wall_us a
             \<and> wall_us a < wall_us (now_received env) + 2 ^ 50"
    then have c: "calculate_latency (timestamp_sent m) (timestamp_received m) =
        ms_of_us (wall_us (now_received env) - wall_us a)"
      using calculate_latency_stamps [of a "now_received env"] by (simp add: r)
    from h have "wall_us (now_received env) - wall_us a \<le> - 10"
      and "\<bar>wall_us (now_received env) - wall_us a\<bar> < 2 ^ 50" by simp_all
    then have "py_round (ms_of_us (wall_us (now_received env) - wall_us a)) 2 < 0"
      by (rule stored_latency_negative)
    then show "v < 0" by (simp only: v_def c)
  qed
  from l neg mal ok late show ?thesis by blast
qed

theorem latency_nonnegative_witness:
  "(\<exists>v. map_sum id latency_ms
          (sqs_metrics (sqs_example ''m-1'' (Some ''2024-05-01T10:00:00Z'')) (example_env 0 250000 True))
        = Inr (Some v) \<and> 0 \<le> v)
   \<and> (\<exists>v. map_sum id latency_ms
          (sqs_metrics (sqs_example ''m-1'' (Some ''2024-05-01T10:00:02Z'')) (example_env 0 250000 True))
        = Inr (Some v) \<and> v < 0)
   \<and> map_sum id latency_ms
          (sqs_metrics (sqs_example ''m-1'' (Some ''yesterday'')) (example_env 0 250000 True))
        = Inr (Some 0)"
proof -
  define m0 where "m0 = projr (sqs_metrics (sqs_example ''m-1'' (Some ''2024-05-01T10:00:00Z''))
                                  (example_env 0 250000 True))"
  define m2 where "m2 = projr (sqs_metrics (sqs_example ''m-1'' (Some ''2024-05-01T10:00:02Z''))
                                  (example_env 0 250000 True))"
  define my where "my = projr (sqs_metrics (sqs_example ''m-1'' (Some ''yesterday''))
                                  (example_env 0 250000 True))"
  have run: "sqs_metrics (sqs_example ''m-1'' (Some ''2024-05-01T10:00:00Z'')) (example_env 0 250000 True) = Inr m0"
    by (simp add: m0_def sqs_metrics_def sqs_example_def ride_message_def simulate_processing_def Let_def)
  have run2: "sqs_metrics (sqs_example ''m-1'' (Some ''2024-05-01T10:00:02Z'')) (example_env 0 250000 True) = Inr m2"
    by (simp add: m2_def sqs_metrics_def sqs_example_def ride_message_def simulate_processing_def Let_def)
  have runy: "sqs_metrics (sqs_example ''m-1'' (Some ''yesterday'')) (example_env 0 250000 True) = Inr my"
    by (simp add: my_def sqs_metrics_def sqs_example_def ride_message_def simulate_processing_def Let_def)
  have ts: "timestamp_sent m0 = Some (utc_stamp (clock 0 0))"
    by (simp add: m0_def sqs_metrics_def sqs_example_def ride_message_def simulate_processing_def
        Let_def stamp_examples)
  have ts2: "timestamp_sent m2 = Some (utc_stamp (clock 2 0))"
    by (simp add: m2_def sqs_metrics_def sqs_example_def ride_message_def simulate_processing_def
        Let_def stamp_examples)
  have tsy: "parse_timestamp (timestamp_sent my) = Inl ValueError"
    by (simp add: my_def sqs_metrics_def sqs_example_def ride_message_def simulate_processing_def
        Let_def parse_examples)
  have env: "now_received (example_env 0 250000 True) = clock 0 250000"
    by (simp add: example_env_def)
  from latency_nonnegative_unless_sent_later
         [of "sqs_example ''m-1'' (Some ''2024-05-01T10:00:00Z'')" "example_env 0 250000 True" m0
             "\<lparr>d_delivery_tag = 1, d_body = Malformed\<rparr>"] run
  obtain v where l: "latency_ms m0 = Some v"
    and ok: "\<forall>a. timestamp_sent m0 = Some (utc_stamp a) \<and> valid_fields a \<and> dt_utcoffset a = None
             \<and> valid_fields (now_received (example_env 0 250000 True))
             \<and> dt_utcoffset (now_received (example_env 0 250000 True)) = None
             \<and> wall_us a \<le> wall_us (now_received (example_env 0 250000 True)) \<longrightarrow> 0 \<le> v"
    by blast
  have "wall_us (clock 0 0) \<le> wall_us (clock 0 250000)"
    by (subst wall_us_clock [of 0 250000]) simp
  with ok [rule_format, of "clock 0 0"] ts have "0 \<le> v"
    by (simp add: env clock_valid)
  with l run have first: "\<exists>v. map_sum id latency_ms
          (sqs_metrics (sqs_example ''m-1'' (Some ''2024-05-01T10:00:00Z'')) (example_env 0 250000 True))
        = Inr (Some v) \<and> 0 \<le> v"
    by simp
  from latency_nonnegative_unless_sent_later
         [of "sqs_example ''m-1'' (Some ''2024-05-01T10:00:02Z'')" "example_env 0 250000 True" m2
             "\<lparr>d_delivery_tag = 1, d_body = Malformed\<rparr>"] run2
  obtain v2 where l2: "latency_ms m2 = Some v2"
    and late: "\<forall>a. timestamp_sent m2 = Some (utc_stamp a) \<and> valid_fields a \<and> dt_utcoffset a = None
             \<and> valid_fields (now_received (example_env 0 250000 True))
             \<and> dt_utcoffset (now_received (example_env 0 250000 True)) = None
             \<and> wall_us (now_received (example_env 0 250000 True)) + 10 \<le> wall_us a
             \<and> wall_us a < wall_us (now_received (example_env 0 250000 True)) + 2 ^ 50 \<longrightarrow> v2 < 0"
    by blast
  have "wall_us (clock 0 250000) + 10 \<le> wall_us (clock 2 0)"
       "wall_us (clock 2 0) < wall_us (clock 0 250000) + 2 ^ 50"
    by (subst wall_us_clock [of 0 250000], subst wall_us_clock [of 2 0], simp)+
  with late [rule_format, of "clock 2 0"] ts2 have "v2 < 0"
    by (simp add: env clock_valid)
  with l2 run2 have second: "\<exists>v. map_sum id latency_ms
          (sqs_metrics (sqs_example ''m-1'' (Some ''2024-05-01T10:00:02Z'')) (example_env 0 250000 True))
        = Inr (Some v) \<and> v < 0"
    by simp
  from latency_nonnegative_unless_sent_later
         [of "sqs_example ''m-1'' (Some ''yesterday'')" "example_env 0 250000 True" my
             "\<lparr>d_delivery_tag = 1, d_body = Malformed\<rparr>"] runy
  obtain vy where ly: "latency_ms my = Some vy"
    and mal: "(\<exists>e. parse_timestamp (timestamp_sent my) = Inl e) \<longrightarrow> vy = 0"
    by blast
  from mal tsy have "vy = 0" by blast
  with ly runy have third: "map_sum id latency_ms
          (sqs_metrics (sqs_example ''m-1'' (Some ''yesterday'')) (example_env 0 250000 True))
        = Inr (Some 0)"
    by simp
  from first second third show ?thesis by blast
qed

lemma latency_1001:
  "calculate_latency (Some ''2024-05-01T10:00:02Z'') (Some ''2024-05-01T10:00:03.001000Z'')
     = 8804889115230207 / 2 ^ 43"
proof -
  have "calculate_latency (Some ''2024-05-01T10:00:02Z'') (Some ''2024-05-01T10:00:03.001000Z'') =
        calculate_latency (Some (utc_stamp (clock 2 0))) (Some (utc_stamp (clock 3 1000)))"
    by (simp only: stamp_examples)
  also have "\<dots> = ms_of_us (wall_us (clock 3 1000) - wall_us (clock 2 0))"
    by (rule calculate_latency_stamps) (simp_all add: clock_valid)
  also have "wall_us (clock 3 1000) - wall_us (clock 2 0) = 1001000"
    by (subst wall_us_clock [of 3 1000], subst wall_us_clock [of 2 0]) simp
  also have "ms_of_us 1001000 = 8804889115230207 / 2 ^ 43"
    unfolding ms_of_us_def by (rule ms_1001)
  finally show ?thesis .
qed

text \<open>
  Claim C5, as stated, fails in the last digits of the float: \<^verbatim>\<open>calculate_latency\<close>
  does not return the difference in milliseconds exactly. For two timestamps 1.001 s
  apart, \<^verbatim>\<open>total_seconds()\<close> is the double nearest to 1.001, which is below 1.001, and its
  product with 1000 is the double \<open>8804889115230207 / 2^43\<close> (printed
  \<^verbatim>\<open>1000.9999999999999\<close>), not 1001.
\<close>

theorem latency_not_exact_difference:
  "calculate_latency (Some ''2024-05-01T10:00:02Z'') (Some ''2024-05-01T10:00:03.001000Z'')
     = 8804889115230207 / 2 ^ 43
   \<and> calculate_latency (Some ''2024-05-01T10:00:02Z'') (Some ''2024-05-01T10:00:03.001000Z'') < 1001"
  by (simp add: latency_1001)

text \<open>
  Claim C5, amended. \<^verbatim>\<open>calculate_latency\<close> returns a number for every pair of arguments
  (the exceptions of its body are values of \<open>latency_try\<close>, all mapped to 0). When either
  argument does not parse, absent values included, it returns 0. For two clock readings
  printed in the format of the system, and for any two strings that parse to datetimes
  with an offset, it returns \<open>ms_of_us d\<close> for their difference \<open>d\<close> in microseconds:
  the double that the two float operations \<^verbatim>\<open>total_seconds() * 1000\<close> produce. That
  double is the difference in milliseconds up to a relative error of \<open>2^-51\<close>, and it is
  exact for a whole number of seconds. The stored \<open>latency_ms\<close> is
  \<^verbatim>\<open>round(latency_ms, 2)\<close>; for a difference below \<open>2^50\<close> microseconds it is the double
  nearest to a multiple \<open>k / 100\<close> of one hundredth that lies within \<open>1 / 200\<close> of the
  difference in milliseconds (at a tie, either neighbour).
\<close>

theorem latency_computation:
  "(valid_fields a \<and> dt_utcoffset a = None \<and> valid_fields b \<and> dt_utcoffset b = None
      \<longrightarrow> calculate_latency (Some (utc_stamp a)) (Some (utc_stamp b)) = ms_of_us (wall_us b - wall_us a))
   \<and> (parse_timestamp s = Inr p \<and> parse_timestamp r = Inr q
        \<and> dt_utcoffset p = Some zp \<and> dt_utcoffset q = Some zq
      \<longrightarrow> calculate_latency s r = ms_of_us ((wall_us q - zq) - (wall_us p - zp)))
   \<and> ((\<exists>e. parse_timestamp s = Inl e) \<or> (\<exists>e. parse_timestamp r = Inl e)
      \<longrightarrow> calculate_latency s r = 0)
   \<and> (sqs_metrics record env = Inr m \<or> rabbitmq_metrics frame env = Inr m
      \<longrightarrow> latency_ms m = Some (py_round (calculate_latency (timestamp_sent m) (timestamp_received m)) 2))
   \<and> ms_of_us d = round_double (round_double (of_int d / 1000000) * 1000)
   \<and> \<bar>ms_of_us d - of_int d / 1000\<bar> \<le> \<bar>of_int d\<bar> / 1000 / 2 ^ 51
   \<and> (\<bar>sec\<bar> < 2 ^ 43 \<longrightarrow> ms_of_us (sec * 1000000) = of_int (sec * 1000))
   \<and> (\<bar>d\<bar> < 2 ^ 50 \<longrightarrow>
        (\<exists>k. py_round (ms_of_us d) 2 = round_double (of_int k / 100)
           \<and> \<bar>of_int k / 100 - of_int d / 1000\<bar> \<le> (1 / 200 :: rat)))"
proof -
  have 1: "valid_fields a \<and> dt_utcoffset a = None \<and> valid_fields b \<and> dt_utcoffset b = None
      \<longrightarrow> calculate_latency (Some (utc_stamp a)) (Some (utc_stamp b)) = ms_of_us (wall_us b - wall_us a)"
    by (simp add: calculate_latency_stamps)
  have 2: "parse_timestamp s = Inr p \<and> parse_timestamp r = Inr q
        \<and> dt_utcoffset p = Some zp \<and> dt_utcoffset q = Some zq
      \<longrightarrow> calculate_latency s r = ms_of_us ((wall_us q - zq) - (wall_us p - zp))"
    using calculate_latency_parsed [of s p r q zp zq] by blast
  have 3: "(\<exists>e. parse_timestamp s = Inl e) \<or> (\<exists>e. parse_timestamp r = Inl e)
      \<longrightarrow> calculate_latency s r = 0"
    using calculate_latency_malformed [of s _ r] by blast
  have 4: "sqs_metrics record env = Inr m \<or> rabbitmq_metrics frame env = Inr m
      \<longrightarrow> latency_ms m = Some (py_round (calculate_latency (timestamp_sent m) (timestamp_received m)) 2)"
    using sqs_metrics_latency(1) rabbitmq_metrics_latency(1) by blast
  have 5: "ms_of_us d = round_double (round_double (of_int d / 1000000) * 1000)"
    by (simp add: ms_of_us_def total_seconds_def)
  have 6: "\<bar>ms_of_us d - of_int d / 1000\<bar> \<le> \<bar>of_int d\<bar> / 1000 / 2 ^ 51"
    by (rule ms_of_us_accuracy)
  have 7: "\<bar>sec\<bar> < 2 ^ 43 \<longrightarrow> ms_of_us (sec * 1000000) = of_int (sec * 1000)"
    using ms_of_us_whole_seconds [of sec] by blast
  have 8: "\<bar>d\<bar> < 2 ^ 50 \<longrightarrow>
        (\<exists>k. py_round (ms_of_us d) 2 = round_double (of_int k / 100)
           \<and> \<bar>of_int k / 100 - of_int d / 1000\<bar> \<le> (1 / 200 :: rat))"
    using stored_hundredth [of d] by blast
  from 1 2 3 4 5 6 7 8 show ?thesis by blast
qed

theorem latency_computation_witness:
  "calculate_latency (Some ''2024-05-01T10:00:00Z'') (Some ''2024-05-01T10:00:02Z'') = 2000
   \<and> calculate_latency (Some ''yesterday'') (Some ''2024-05-01T10:00:00.250000Z'') = 0
   \<and> calculate_latency None (Some ''2024-05-01T10:00:00.250000Z'') = 0
   \<and> \<bar>calculate_latency (Some ''2024-05-01T10:00:02Z'') (Some ''2024-05-01T10:00:03.001000Z'') - 1001\<bar>
       \<le> 1001 / 2 ^ 51
   \<and> (\<exists>k. py_round (calculate_latency (Some ''2024-05-01T10:00:02Z'') (Some ''2024-05-01T10:00:03.001000Z'')) 2
            = round_double (of_int k / 100)
         \<and> \<bar>of_int k / 100 - 1001\<bar> \<le> (1 / 200 :: rat))"
proof -
  have a: "calculate_latency (Some (utc_stamp (clock 0 0))) (Some (utc_stamp (clock 2 0)))
        = ms_of_us (wall_us (clock 2 0) - wall_us (clock 0 0))"
    using latency_computation [of "clock 0 0" "clock 2 0"] by (simp add: clock_valid)
  have w: "wall_us (clock 2 0) - wall_us (clock 0 0) = 2 * 1000000"
    by (subst wall_us_clock [of 2 0]) simp
  have "\<bar>2 :: int\<bar> < 2 ^ 43 \<longrightarrow> ms_of_us (2 * 1000000) = of_int (2 * 1000)"
    using latency_computation [where sec = 2] by blast
  then have "ms_of_us (2 * 1000000) = of_int (2 * 1000)" by simp
  with a w have 1: "calculate_latency (Some ''2024-05-01T10:00:00Z'') (Some ''2024-05-01T10:00:02Z'') = 2000"
    by (simp add: stamp_examples)
  have 2: "calculate_latency (Some ''yesterday'') (Some ''2024-05-01T10:00:00.250000Z'') = 0"
    using latency_computation [where s = "Some ''yesterday''" and r = "Some ''2024-05-01T10:00:00.250000Z''"]
      parse_examples(1) by blast
  have 3: "calculate_latency None (Some ''2024-05-01T10:00:00.250000Z'') = 0"
    using latency_computation [where s = None and r = "Some ''2024-05-01T10:00:00.250000Z''"]
      parse_examples(2) by blast
  have b: "calculate_latency (Some (utc_stamp (clock 2 0))) (Some (utc_stamp (clock 3 1000)))
        = ms_of_us (wall_us (clock 3 1000) - wall_us (clock 2 0))"
    using latency_computation [of "clock 2 0" "clock 3 1000"] by (simp add: clock_valid)
  have "wall_us (clock 3 1000) - wall_us (clock 2 0) = 1001000"
    by (subst wall_us_clock [of 3 1000], subst wall_us_clock [of 2 0]) simp
  with b have c: "calculate_latency (Some ''2024-05-01T10:00:02Z'') (Some ''2024-05-01T10:00:03.001000Z'')
        = ms_of_us 1001000"
    by (simp add: stamp_examples)
  have "\<bar>ms_of_us 1001000 - of_int 1001000 / 1000\<bar> \<le> \<bar>of_int 1001000\<bar> / 1000 / 2 ^ 51"
    using latency_computation [where d = 1001000] by blast
  then have 4: "\<bar>ms_of_us 1001000 - 1001\<bar> \<le> 1001 / 2 ^ 51" by simp
  have "\<bar>1001000 :: int\<bar> < 2 ^ 50 \<longrightarrow>
        (\<exists>k. py_round (ms_of_us 1001000) 2 = round_double (of_int k / 100)
           \<and> \<bar>of_int k / 100 - of_int 1001000 / 1000\<bar> \<le> (1 / 200 :: rat))"
    using latency_computation [where d = 1001000] by blast
  then have 5: "\<exists>k. py_round (ms_of_us 1001000) 2 = round_double (of_int k / 100)
         \<and> \<bar>of_int k / 100 - 1001\<bar> \<le> (1 / 200 :: rat)"
    by simp
  from 1 2 3 4 5 show ?thesis unfolding c by blast
qed

section \<open>The consumer loops\<close>

lemma process_record_counts:
  "ps_processed_count (process_record r (world i) st) =
     ps_processed_count st + (if record_fails world (i, r) then 0 else 1)"
  "ps_failed_count (process_record r (world i) st) =
     ps_failed_count st + (if record_fails world (i, r) then 1 else 0)"
  by (auto simp: process_record_def record_fails_def split: sum.splits)

lemma process_records_counts:
  "ps_processed_count (process_records world i rs st) =
     ps_processed_count st + length (filter (\<lambda>ir. \<not> record_fails world ir) (enumerate i rs))
   \<and> ps_failed_count (process_records world i rs st) =
     ps_failed_count st + length (filter (record_fails world) (enumerate i rs))"
proof (induction rs arbitrary: i st)
  case Nil
  then show ?case by simp
next
  case (Cons r rs)
  show ?case
    using Cons [of "Suc i" "process_record r (world i) st"]
    by (simp add: process_record_counts)
qed

lemma filter_complement_length:
  "length (filter (\<lambda>x. \<not> P x) xs) = length xs - length (filter P xs)"
proof -
  have "length (filter P xs) + length (filter (\<lambda>x. \<not> P x) xs) = length xs"
    by (induction xs) auto
  then show ?thesis by simp
qed

text \<open>
  Claim C4. For a batch of \<open>N\<close> records of which \<open>K\<close> fail (the \<^verbatim>\<open>try\<close> block raises, or
  \<^verbatim>\<open>store_metrics_to_s3\<close> returns \<^verbatim>\<open>False\<close>), the handler returns normally with
  \<open>processed = N - K\<close>, \<open>failed = K\<close> and \<open>total = N\<close>, so that processed and failed add
  up to the total; an event without \<open>Records\<close> gives three zeros.
\<close>

theorem push_batch_accounting:
  "sqs_lambda_handler Absent world = Inr (\<lparr>r_statusCode = 200, r_processed = 0, r_failed = 0, r_total = 0\<rparr>, [])
   \<and> (\<exists>stored.
        sqs_lambda_handler (Record_list rs) world =
          Inr (\<lparr>r_statusCode = 200,
                r_processed = length rs - length (filter (record_fails world) (enumerate 0 rs)),
                r_failed = length (filter (record_fails world) (enumerate 0 rs)),
                r_total = length rs\<rparr>, stored))
   \<and> length (filter (record_fails world) (enumerate 0 rs)) \<le> length rs
   \<and> (length rs - length (filter (record_fails world) (enumerate 0 rs)))
        + length (filter (record_fails world) (enumerate 0 rs)) = length rs"
proof -
  have le: "length (filter (record_fails world) (enumerate 0 rs)) \<le> length rs"
    using length_filter_le [of "record_fails world" "enumerate 0 rs"] by simp
  have "length (filter (\<lambda>ir. \<not> record_fails world ir) (enumerate 0 rs)) =
        length rs - length (filter (record_fails world) (enumerate 0 rs))"
    using filter_complement_length [of "record_fails world" "enumerate 0 rs"] by simp
  then have "\<exists>stored.
        sqs_lambda_handler (Record_list rs) world =
          Inr (\<lparr>r_statusCode = 200,
                r_processed = length rs - length (filter (record_fails world) (enumerate 0 rs)),
                r_failed = length (filter (record_fails world) (enumerate 0 rs)),
                r_total = length rs\<rparr>, stored)"
    using process_records_counts [of world 0 rs "\<lparr>ps_processed_count = 0, ps_failed_count = 0, put_objects = []\<rparr>"]
    by (simp add: sqs_lambda_handler_def Let_def)
  moreover have "sqs_lambda_handler Absent world =
      Inr (\<lparr>r_statusCode = 200, r_processed = 0, r_failed = 0, r_total = 0\<rparr>, [])"
    by (simp add: sqs_lambda_handler_def)
  ultimately show ?thesis using le by simp
qed

lemma poll_result_step:
  assumes "poll_result mx world (Suc i) frames st1 st' ds"
    and "channel_log st1 = channel_log st @ [frame_op world (i, d)]"
    and "processed_messages st1 = processed_messages st @ List.map_filter (persisted world) [(i, d)]"
    and "messages_consumed st1 = messages_consumed st + length (filter (counted world) [(i, d)])"
  shows "poll_result mx world i (Some d # frames) st st' (d # ds)"
  using assms by (auto simp: poll_result_def map_filter_simps split: option.splits)

lemma consume_loop_result:
  "\<exists>ds. poll_result mx world i frames st (consume_loop mx world i frames st) ds"
proof (induction frames arbitrary: i st)
  case Nil
  have "poll_result mx world i [] st (consume_loop mx world i [] st) []"
    by (simp add: poll_result_def map_filter_simps)
  then show ?case ..
next
  case (Cons f frames)
  show ?case
  proof (cases f)
    case None
    have "poll_result mx world i (f # frames) st (consume_loop mx world i (f # frames) st) []"
      by (simp add: None poll_result_def map_filter_simps)
    then show ?thesis ..
  next
    case (Some d)
    show ?thesis
    proof (cases "rabbitmq_metrics d (world i)")
      case (Inl e)
      define st1 where "st1 = st\<lparr>channel_log := channel_log st @ [Basic_nack (d_delivery_tag d) True]\<rparr>"
      have run: "consume_loop mx world i (Some d # frames) st = consume_loop mx world (Suc i) frames st1"
        by (simp add: Inl st1_def)
      from Cons [of "Suc i" st1] obtain ds where
        "poll_result mx world (Suc i) frames st1 (consume_loop mx world (Suc i) frames st1) ds" ..
      then have "poll_result mx world i (Some d # frames) st (consume_loop mx world (Suc i) frames st1) (d # ds)"
        by (rule poll_result_step)
          (simp_all add: st1_def frame_op_def persisted_def counted_def Inl map_filter_simps)
      then show ?thesis unfolding Some run ..
    next
      case (Inr metrics)
      define st1 where "st1 =
        (if store_metrics_to_s3 (world i) metrics
         then st\<lparr>channel_log := channel_log st @ [Basic_ack (d_delivery_tag d)],
                 processed_messages := processed_messages st @ [metrics],
                 stored_objects := stored_objects st @ [metrics]\<rparr>
         else st\<lparr>channel_log := channel_log st @ [Basic_nack (d_delivery_tag d) True]\<rparr>)"
      define st2 where "st2 = st1\<lparr>messages_consumed := messages_consumed st1 + 1\<rparr>"
      have run: "consume_loop mx world i (Some d # frames) st =
          (if mx \<le> int (messages_consumed st2) then st2 else consume_loop mx world (Suc i) frames st2)"
        by (simp add: Inr st1_def st2_def Let_def)
      have a: "channel_log st2 = channel_log st @ [frame_op world (i, d)]"
        by (simp add: st2_def st1_def frame_op_def persisted_def Inr)
      have b: "processed_messages st2 = processed_messages st @ List.map_filter (persisted world) [(i, d)]"
        by (simp add: st2_def st1_def persisted_def Inr map_filter_simps)
      have c: "messages_consumed st2 = messages_consumed st + length (filter (counted world) [(i, d)])"
        by (simp add: st2_def st1_def counted_def Inr)
      show ?thesis
      proof (cases "mx \<le> int (messages_consumed st2)")
        case True
        have "poll_result mx world (Suc i) frames st2 st2 []"
          using True by (simp add: poll_result_def map_filter_simps)
        then have "poll_result mx world i (Some d # frames) st st2 [d]"
          using a b c by (rule poll_result_step)
        then show ?thesis using True unfolding Some run by auto
      next
        case False
        from Cons [of "Suc i" st2] obtain ds where
          "poll_result mx world (Suc i) frames st2 (consume_loop mx world (Suc i) frames st2) ds" ..
        then have "poll_result mx world i (Some d # frames) st (consume_loop mx world (Suc i) frames st2) (d # ds)"
          using a b c by (rule poll_result_step)
        then show ?thesis using False unfolding Some run by auto
      qed
    qed
  qed
qed

text \<open>
  Claim C2. One poll takes a prefix \<open>ds\<close> of the deliveries that the generator yields.
  The calls on the channel are, in order, one per delivery of \<open>ds\<close>: an acknowledgement
  when the metrics of the delivery were stored, a negative acknowledgement with requeue
  otherwise; the returned list holds exactly the stored metrics, in order. The loop
  stops only when the generator ends or yields \<open>None\<close>, or when \<open>max_messages\<close> messages
  have been counted. The witness is the example of the specification: of five
  messages the third fails to persist; it is requeued, the other four are
  acknowledged, and the returned list holds the other four.
\<close>

theorem pull_consumer_acknowledgements:
  "\<exists>ds. map Some ds = take (length ds) frames
     \<and> channel_log (consume_messages_from_rabbitmq True max_messages world frames)
         = map (frame_op world) (enumerate 0 ds)
     \<and> processed_messages (consume_messages_from_rabbitmq True max_messages world frames)
         = List.map_filter (persisted world) (enumerate 0 ds)
     \<and> (\<forall>jd \<in> set (enumerate 0 ds).
           (\<forall>metrics. persisted world jd = Some metrics \<longrightarrow>
              frame_op world jd = Basic_ack (d_delivery_tag (snd jd))
              \<and> Basic_ack (d_delivery_tag (snd jd))
                   \<in> set (channel_log (consume_messages_from_rabbitmq True max_messages world frames))
              \<and> metrics \<in> set (processed_messages (consume_messages_from_rabbitmq True max_messages world frames)))
         \<and> (persisted world jd = None \<longrightarrow>
              frame_op world jd = Basic_nack (d_delivery_tag (snd jd)) True
              \<and> Basic_nack (d_delivery_tag (snd jd)) True
                   \<in> set (channel_log (consume_messages_from_rabbitmq True max_messages world frames))))
     \<and> messages_consumed (consume_messages_from_rabbitmq True max_messages world frames)
         = length (filter (counted world) (enumerate 0 ds))
     \<and> (length ds = length frames
         \<or> (length ds < length frames \<and> frames ! length ds = None)
         \<or> max_messages \<le> int (messages_consumed (consume_messages_from_rabbitmq True max_messages world frames)))"
proof -
  define st' where "st' = consume_messages_from_rabbitmq True max_messages world frames"
  have st': "st' = consume_loop max_messages world 0 frames initial_pull_state"
    by (simp add: st'_def consume_messages_from_rabbitmq_def)
  from consume_loop_result [of max_messages world 0 frames initial_pull_state]
  obtain ds where p: "poll_result max_messages world 0 frames initial_pull_state st' ds"
    unfolding st' ..
  from p have pre: "map Some ds = take (length ds) frames"
    and log: "channel_log st' = map (frame_op world) (enumerate 0 ds)"
    and pm: "processed_messages st' = List.map_filter (persisted world) (enumerate 0 ds)"
    and mc: "messages_consumed st' = length (filter (counted world) (enumerate 0 ds))"
    and stop: "length ds = length frames
         \<or> (length ds < length frames \<and> frames ! length ds = None)
         \<or> max_messages \<le> int (messages_consumed st')"
    by (auto simp add: poll_result_def initial_pull_state_def)
  have each: "\<forall>jd \<in> set (enumerate 0 ds).
           (\<forall>metrics. persisted world jd = Some metrics \<longrightarrow>
              frame_op world jd = Basic_ack (d_delivery_tag (snd jd))
              \<and> Basic_ack (d_delivery_tag (snd jd)) \<in> set (channel_log st')
              \<and> metrics \<in> set (processed_messages st'))
         \<and> (persisted world jd = None \<longrightarrow>
              frame_op world jd = Basic_nack (d_delivery_tag (snd jd)) True
              \<and> Basic_nack (d_delivery_tag (snd jd)) True \<in> set (channel_log st'))"
  proof
    fix jd
    assume jd: "jd \<in> set (enumerate 0 ds)"
    then have op_in: "frame_op world jd \<in> set (channel_log st')" by (simp add: log)
    have a: "\<forall>metrics. persisted world jd = Some metrics \<longrightarrow>
              frame_op world jd = Basic_ack (d_delivery_tag (snd jd))
              \<and> Basic_ack (d_delivery_tag (snd jd)) \<in> set (channel_log st')
              \<and> metrics \<in> set (processed_messages st')"
    proof (intro allI impI)
      fix metrics
      assume s: "persisted world jd = Some metrics"
      then have f: "frame_op world jd = Basic_ack (d_delivery_tag (snd jd))"
        by (simp add: frame_op_def)
      have "metrics \<in> set (List.map_filter (persisted world) (enumerate 0 ds))"
        using jd s by (force simp: map_filter_def)
      with f op_in show "frame_op world jd = Basic_ack (d_delivery_tag (snd jd))
              \<and> Basic_ack (d_delivery_tag (snd jd)) \<in> set (channel_log st')
              \<and> metrics \<in> set (processed_messages st')"
        by (simp add: pm)
    qed
    have b: "persisted world jd = None \<longrightarrow>
              frame_op world jd = Basic_nack (d_delivery_tag (snd jd)) True
              \<and> Basic_nack (d_delivery_tag (snd jd)) True \<in> set (channel_log st')"
      using op_in by (auto simp add: frame_op_def)
    from a b show "(\<forall>metrics. persisted world jd = Some metrics \<longrightarrow>
              frame_op world jd = Basic_ack (d_delivery_tag (snd jd))
              \<and> Basic_ack (d_delivery_tag (snd jd)) \<in> set (channel_log st')
              \<and> metrics \<in> set (processed_messages st'))
         \<and> (persisted world jd = None \<longrightarrow>
              frame_op world jd = Basic_nack (d_delivery_tag (snd jd)) True
              \<and> Basic_nack (d_delivery_tag (snd jd)) True \<in> set (channel_log st'))" ..
  qed
  from pre log pm each mc stop show ?thesis unfolding st'_def by blast
qed

lemma rabbitmq_metrics_object:
  assumes "d_body d = Object mb"
  shows "\<exists>m. rabbitmq_metrics d env = Inr m \<and> delivery_tag m = Some (d_delivery_tag d)"
  using assms by (simp add: rabbitmq_metrics_def Let_def simulate_processing_def)

lemma persisted_object:
  assumes "d_body d = Object mb"
  shows "map_option delivery_tag (persisted world (j, d)) =
           (if put_object_ok (world j) then Some (Some (d_delivery_tag d)) else None)"
  using rabbitmq_metrics_object [OF assms, of "world j"]
  by (auto simp: persisted_def store_metrics_to_s3_def)

lemma persisted_none_iff:
  assumes "d_body d = Object mb"
  shows "persisted world (j, d) = None \<longleftrightarrow> \<not> put_object_ok (world j)"
  using rabbitmq_metrics_object [OF assms, of "world j"]
  by (auto simp: persisted_def store_metrics_to_s3_def)

lemma map_filter_tags:
  "map delivery_tag (List.map_filter f xs) = List.map_filter (\<lambda>x. map_option delivery_tag (f x)) xs"
  by (induction xs) (auto simp: map_filter_simps split: option.splits)

theorem pull_consumer_witness:
  "channel_log (consume_messages_from_rabbitmq True 10 third_put_fails (map Some five_deliveries))
     = [Basic_ack 1, Basic_ack 2, Basic_nack 3 True, Basic_ack 4, Basic_ack 5]
   \<and> map delivery_tag
        (processed_messages (consume_messages_from_rabbitmq True 10 third_put_fails (map Some five_deliveries)))
     = [Some 1, Some 2, Some 4, Some 5]"
proof -
  define st' where "st' = consume_messages_from_rabbitmq True 10 third_put_fails (map Some five_deliveries)"
  from pull_consumer_acknowledgements [of "map Some five_deliveries" 10 third_put_fails]
  obtain ds where pre: "map Some ds = take (length ds) (map Some five_deliveries)"
    and log: "channel_log st' = map (frame_op third_put_fails) (enumerate 0 ds)"
    and pm: "processed_messages st' = List.map_filter (persisted third_put_fails) (enumerate 0 ds)"
    and mc: "messages_consumed st' = length (filter (counted third_put_fails) (enumerate 0 ds))"
    and stop: "length ds = length (map Some five_deliveries)
         \<or> (length ds < length (map Some five_deliveries) \<and> map Some five_deliveries ! length ds = None)
         \<or> 10 \<le> int (messages_consumed st')"
    unfolding st'_def by blast
  have len5: "length five_deliveries = 5" by (simp add: five_deliveries_def)
  from pre have "length ds = length (take (length ds) (map Some five_deliveries))"
    by (metis length_map)
  then have le: "length ds \<le> 5" by (simp add: len5)
  have "messages_consumed st' \<le> length ds"
    unfolding mc using length_filter_le [of "counted third_put_fails" "enumerate 0 ds"] by simp
  with le have n3: "\<not> 10 \<le> int (messages_consumed st')" by simp
  have n2: "\<not> (length ds < length (map Some five_deliveries) \<and> map Some five_deliveries ! length ds = None)"
    by simp
  from stop n2 n3 have "length ds = length (map Some five_deliveries)" by blast
  then have "length ds = 5" by (simp add: len5)
  with pre have "map Some ds = map Some five_deliveries" by (simp add: len5)
  then have ds: "ds = five_deliveries" by (simp add: map_injective inj_on_def)
  have bodies: "\<And>tag. d_body \<lparr>d_delivery_tag = tag, d_body = ride_message ''m'' (Some ''2024-05-01T09:59:59Z'')\<rparr>
      = Object \<lparr>mb_message_id = Some ''m'', mb_timestamp_sent = Some ''2024-05-01T09:59:59Z'',
             mb_passenger_name = Some ''Ada'', mb_current_address = Some ''1 Main St'',
             mb_destination = Some ''Airport''\<rparr>"
    by (simp add: ride_message_def)
  have tags: "map delivery_tag (processed_messages st') = [Some 1, Some 2, Some 4, Some 5]"
    unfolding pm ds map_filter_tags
    by (simp add: five_deliveries_def enumerate_eq_zip map_filter_simps persisted_object [OF bodies]
        third_put_fails_def example_env_def upt_rec)
  have p: "\<And>j tag. persisted third_put_fails
              (j, \<lparr>d_delivery_tag = tag, d_body = ride_message ''m'' (Some ''2024-05-01T09:59:59Z'')\<rparr>) = None
            \<longleftrightarrow> j = 2"
    by (simp add: persisted_none_iff [OF bodies] third_put_fails_def example_env_def)
  have ops: "channel_log st' = [Basic_ack 1, Basic_ack 2, Basic_nack 3 True, Basic_ack 4, Basic_ack 5]"
    unfolding log ds
    by (simp add: five_deliveries_def enumerate_eq_zip frame_op_def p upt_rec split: option.splits)
  from ops tags show ?thesis unfolding st'_def by simp
qed

theorem push_batch_witness:
  "\<exists>stored. sqs_lambda_handler (Record_list three_records) second_put_fails =
      Inr (\<lparr>r_statusCode = 200, r_processed = 1, r_failed = 2, r_total = 3\<rparr>, stored)"
proof -
  have f: "filter (record_fails second_put_fails) (enumerate 0 three_records) =
        [(1, sqs_example ''m-2'' (Some ''2024-05-01T09:59:59Z'')),
         (2, \<lparr>body_field = Some Malformed, messageId = Some ''sqs-3'', receiptHandle = Some ''rh-3''\<rparr>)]"
    by (simp add: three_records_def enumerate_eq_zip upt_rec record_fails_def sqs_metrics_def
        sqs_example_def ride_message_def second_put_fails_def example_env_def
        store_metrics_to_s3_def simulate_processing_def Let_def)
  show ?thesis
    using push_batch_accounting [of second_put_fails three_records]
    by (simp add: f numeral_2_eq_2 numeral_3_eq_3) (simp add: three_records_def)
qed

section \<open>The producer\<close>

lemma check_fields_find:
  "check_fields b fs =
     (case List.find (missing b) fs of
        None \<Rightarrow> (True, None)
      | Some f \<Rightarrow> (False, Some (''Missing required field: '' @ f)))"
  by (induction fs) (auto simp: missing_def split: option.splits)

lemma validate_nonempty:
  "b \<noteq> [] \<Longrightarrow> validate_request_body b =
     (case first_missing b of
        None \<Rightarrow> (True, None)
      | Some f \<Rightarrow> (False, Some (''Missing required field: '' @ f)))"
  by (simp add: validate_request_body_def check_fields_find first_missing_def)

lemma first_missing_none:
  "first_missing b = None \<longleftrightarrow> (\<forall>f \<in> set required_fields. \<exists>v. map_of b f = Some v \<and> truthy v)"
  by (auto simp: first_missing_def find_None_iff missing_def split: option.splits)

lemma subscript_present:
  "first_missing b = None \<Longrightarrow> f \<in> set required_fields \<Longrightarrow> \<exists>v. subscript b f = Inr v"
  by (auto simp: first_missing_none subscript_def)

text \<open>
  Claim C6, as stated, fails on the empty object: all three required fields are absent,
  and the error is \<open>Request body is empty\<close>, which names no field.
\<close>

theorem empty_body_error_names_no_field:
  "producer_handler \<lparr>pe_queryStringParameters = None, pe_body = Body_object []\<rparr> producer_env0
     = (error_response 400 ''Request body is empty'', [])
   \<and> pb_error (p_body (error_response 400 ''Request body is empty''))
       \<noteq> Some ''Missing required field: passenger_name''"
  by (simp add: producer_handler_def producer_try_def queue_selector_def validate_request_body_def
      try_bind_def error_response_def get_or_def)

text \<open>
  Claim C6, amended. For a request with a valid queue selector whose body is a JSON
  object: the empty object is rejected with status 400 and the error
  \<open>Request body is empty\<close>; a non-empty object in which a required field is absent or
  falsy is rejected with status 400 and the error naming the first such field in the
  order passenger_name, current_address, destination; in both cases nothing is handed
  to a send function. When all three fields are present and truthy, validation
  succeeds and exactly one message is handed to the send function of the selected
  queue.
\<close>

theorem producer_validation:
  assumes "queue_selector event \<in> {''sqs'', ''rabbitmq''}" and "pe_body event = Body_object b"
  shows "(b = [] \<longrightarrow> producer_handler event env = (error_response 400 ''Request body is empty'', []))
     \<and> (\<forall>f. b \<noteq> [] \<and> first_missing b = Some f \<longrightarrow>
           producer_handler event env = (error_response 400 (''Missing required field: '' @ f), []))
     \<and> (b \<noteq> [] \<and> first_missing b = None \<longrightarrow>
           validate_request_body b = (True, None)
           \<and> (\<exists>response message. producer_handler event env = (response, [(queue_selector event, message)])))
     \<and> (first_missing b = None \<longleftrightarrow>
           (\<forall>f \<in> set required_fields. \<exists>v. map_of b f = Some v \<and> truthy v))"
proof -
  have sel: "\<not> queue_selector event \<notin> set [''sqs'', ''rabbitmq'']" using assms(1) by simp
  have 1: "b = [] \<longrightarrow> producer_handler event env = (error_response 400 ''Request body is empty'', [])"
    using sel assms(2)
    by (auto simp add: producer_handler_def producer_try_def validate_request_body_def try_bind_def
        get_or_def Let_def)
  have 2: "\<forall>f. b \<noteq> [] \<and> first_missing b = Some f \<longrightarrow>
           producer_handler event env = (error_response 400 (''Missing required field: '' @ f), [])"
    using sel assms(2)
    by (auto simp add: producer_handler_def producer_try_def validate_nonempty try_bind_def
        get_or_def Let_def)
  have 3: "b \<noteq> [] \<and> first_missing b = None \<longrightarrow>
           validate_request_body b = (True, None)
           \<and> (\<exists>response message. producer_handler event env = (response, [(queue_selector event, message)]))"
  proof
    assume h: "b \<noteq> [] \<and> first_missing b = None"
    then have v: "validate_request_body b = (True, None)" by (simp add: validate_nonempty)
    from h have fm: "first_missing b = None" by simp
    obtain p where s1: "subscript b ''passenger_name'' = Inr p"
      using subscript_present [OF fm, of "''passenger_name''"] by (auto simp: required_fields_def)
    obtain a where s2: "subscript b ''current_address'' = Inr a"
      using subscript_present [OF fm, of "''current_address''"] by (auto simp: required_fields_def)
    obtain d where s3: "subscript b ''destination'' = Inr d"
      using subscript_present [OF fm, of "''destination''"] by (auto simp: required_fields_def)
    note s = s1 s2 s3
    have "\<exists>response message. producer_handler event env = (response, [(queue_selector event, message)])"
      using sel assms(2) v s
      by (cases "send_error env")
        (auto simp add: producer_handler_def producer_try_def try_bind_def Let_def)
    with v show "validate_request_body b = (True, None)
           \<and> (\<exists>response message. producer_handler event env = (response, [(queue_selector event, message)]))" ..
  qed
  from 1 2 3 first_missing_none [of b] show ?thesis by blast
qed

theorem producer_validation_witness:
  "producer_handler
     \<lparr>pe_queryStringParameters = Some [(''queue'', ''RabbitMQ'')],
      pe_body = Body_object [(''passenger_name'', JStr ''Ada''), (''destination'', JStr ''Airport'')]\<rparr>
     producer_env0
   = (error_response 400 ''Missing required field: current_address'', [])"
proof -
  have q: "queue_selector \<lparr>pe_queryStringParameters = Some [(''queue'', ''RabbitMQ'')],
      pe_body = Body_object [(''passenger_name'', JStr ''Ada''), (''destination'', JStr ''Airport'')]\<rparr>
      \<in> {''sqs'', ''rabbitmq''}"
    by (simp add: queue_selector_def get_or_def lower_def lower_char_def)
  have m: "first_missing [(''passenger_name'', JStr ''Ada''), (''destination'', JStr ''Airport'')]
      = Some ''current_address''"
    by (simp add: first_missing_def required_fields_def missing_def)
  show ?thesis
    using producer_validation [OF q, of "[(''passenger_name'', JStr ''Ada''), (''destination'', JStr ''Airport'')]" producer_env0]
      m by simp
qed

end
